theory Spec2Isabelle
  imports Complex_Main "HOL-Library.Word"
begin

unbundle bit_operations_syntax

section \<open>Machine types and constants\<close>

type_synonym int16 = "16 word"
type_synonym int32 = "32 word"
type_synonym uint32 = "32 word"

text \<open>The ESP-IDF error codes that the two components distinguish.\<close>

datatype esp_err =
    ESP_OK
  | ESP_ERR_INVALID_STATE
  | ESP_ERR_INVALID_ARG
  | ESP_ERR_INVALID_SIZE
  | ESP_ERR_NO_MEM
  | ESP_ERR_TIMEOUT
  | ESP_FAIL

section \<open>I2S speaker: volume table and Q15 gain stage\<close>

text \<open>
  \<^verbatim>\<open>static const std::vector<int16_t> q15_volume_scaling_factors\<close> of
  \<^verbatim>\<open>i2s_audio_speaker.cpp\<close>, entry by entry.
\<close>

definition q15_volume_scaling_factors :: "int16 list" where
  "q15_volume_scaling_factors =
    [0,     116,   122,   130,   137,   146,   154,   163,   173,   183,   194,   206,   218,   231,   244,
     259,   274,   291,   308,   326,   345,   366,   388,   411,   435,   461,   488,   517,   548,   580,
     615,   651,   690,   731,   774,   820,   868,   920,   974,   1032,  1094,  1158,  1227,  1300,  1377,
     1459,  1545,  1637,  1734,  1837,  1946,  2061,  2184,  2313,  2450,  2596,  2750,  2913,  3085,  3269,
     3462,  3668,  3885,  4116,  4360,  4619,  4893,  5183,  5490,  5816,  6161,  6527,  6914,  7324,  7758,
     8218,  8706,  9222,  9770,  10349, 10963, 11613, 12302, 13032, 13805, 14624, 15491, 16410, 17384, 18415,
     19508, 20665, 21891, 23189, 24565, 26022, 27566, 29201, 30933, 32767]"

definition INT16_MAX :: int16 where
  "INT16_MAX = 32767"

text \<open>
  Modelled from the spec: the helper \<^verbatim>\<open>remap<ssize_t, float>\<close> that
  \<^verbatim>\<open>set_volume\<close> calls is declared in \<^verbatim>\<open>esphome/core/helpers.h\<close>, which is
  not among the sources. The specification describes the resulting index as a linear
  interpolation over the table's domain, \<open>round(volume * 99)\<close>, clamped to the table
  bounds. The float argument is read as the real number it denotes and the arithmetic is
  exact; \<open>round\<close> rounds a half upwards.
\<close>

definition remap :: "real \<Rightarrow> real \<Rightarrow> real \<Rightarrow> int \<Rightarrow> int \<Rightarrow> int" where
  "remap value min_in max_in min_out max_out =
     max min_out (min max_out
       (round ((value - min_in) * of_int (max_out - min_out) / (max_in - min_in)) + min_out))"

text \<open>
  The event group word of the speaker: command bits written by the component's API,
  state and error bits written by the task
  (\<^verbatim>\<open>enum SpeakerTaskNotificationBits : uint32_t\<close>).
\<close>

definition COMMAND_START :: uint32 where "COMMAND_START = push_bit 0 1"
definition COMMAND_STOP :: uint32 where "COMMAND_STOP = push_bit 1 1"
definition COMMAND_STOP_GRACEFULLY :: uint32 where "COMMAND_STOP_GRACEFULLY = push_bit 2 1"
definition MESSAGE_RING_BUFFER_AVAILABLE_TO_WRITE :: uint32 where
  "MESSAGE_RING_BUFFER_AVAILABLE_TO_WRITE = push_bit 5 1"
definition STATE_STARTING :: uint32 where "STATE_STARTING = push_bit 10 1"
definition STATE_RUNNING :: uint32 where "STATE_RUNNING = push_bit 11 1"
definition STATE_STOPPING :: uint32 where "STATE_STOPPING = push_bit 12 1"
definition STATE_STOPPED :: uint32 where "STATE_STOPPED = push_bit 13 1"
definition ERR_INVALID_STATE :: uint32 where "ERR_INVALID_STATE = push_bit 16 1"
definition ERR_INVALID_ARG :: uint32 where "ERR_INVALID_ARG = push_bit 17 1"
definition ERR_INVALID_SIZE :: uint32 where "ERR_INVALID_SIZE = push_bit 18 1"
definition ERR_NO_MEM :: uint32 where "ERR_NO_MEM = push_bit 19 1"
definition ERR_FAIL :: uint32 where "ERR_FAIL = push_bit 20 1"
definition ERR_TASK_FAILED_TO_START :: uint32 where "ERR_TASK_FAILED_TO_START = push_bit 21 1"
definition ERROR_BITS :: uint32 where
  "ERROR_BITS = ERR_INVALID_STATE OR ERR_INVALID_ARG OR ERR_INVALID_SIZE OR ERR_NO_MEM OR ERR_FAIL"
definition ALL_BITS :: uint32 where "ALL_BITS = 0x00FFFFFF"

text \<open>\<^verbatim>\<open>speaker::State\<close>, the state the component publishes.\<close>

datatype speaker_state =
    speaker_STATE_STOPPED
  | speaker_STATE_STARTING
  | speaker_STATE_RUNNING
  | speaker_STATE_STOPPING

record AudioStreamInfo =
  channels :: nat
  stream_bits_per_sample :: nat
  stream_sample_rate :: nat

text \<open>Status events and commands of the media player's own speaker task.\<close>

datatype EventType =
    EventType_STARTING
  | EventType_STARTED
  | EventType_IDLE
  | EventType_RUNNING
  | EventType_STOPPING
  | EventType_STOPPED
  | EventType_WARNING

record TaskEvent =
  event_type :: EventType
  event_err :: esp_err

text \<open>
  What a task does to the world outside the component, in the order it does it: the log
  that the ordering properties are stated on.
\<close>

datatype action =
    SetBits uint32
  | DriverInstall
  | RingRead nat
  | I2SWrite "int16 list" nat
  | I2SWriteExpand "int16 list" nat
  | ZeroDmaBuffer
  | I2SStop
  | DriverUninstall
  | ParentUnlock
  | RingBufferReset
  | Deallocate
  | TaskDelete
  | QueueSend TaskEvent

text \<open>
  The fields of \<^verbatim>\<open>I2SAudioSpeaker\<close> that its functions read and write. Pointers are
  modelled by whether they are null; the data buffer is its contents seen as 16-bit
  samples. The trailing underscore of the C++ member names is dropped.
\<close>

record speaker =
  volume :: real
  q15_volume_factor :: int16
  event_group :: uint32
  state :: speaker_state
  speaker_task_handle :: bool
  task_created :: bool
  audio_ring_buffer :: bool
  data_buffer :: "int16 list option"
  timeout :: uint32
  bits_per_sample :: nat
  sample_rate :: nat
  i2s_mode_master :: bool
  audio_stream_info :: AudioStreamInfo
  failed :: bool
  warning :: bool
  parent_locked :: bool
  driver_installed :: bool
  trace :: "action list"

definition test_bits :: "uint32 \<Rightarrow> uint32 \<Rightarrow> bool" where
  "test_bits v b = (v AND b \<noteq> 0)"

definition log_action :: "action \<Rightarrow> speaker \<Rightarrow> speaker" where
  "log_action a this = this\<lparr>trace := trace this @ [a]\<rparr>"

definition xEventGroupSetBits :: "uint32 \<Rightarrow> speaker \<Rightarrow> speaker" where
  "xEventGroupSetBits b this =
     log_action (SetBits b) (this\<lparr>event_group := event_group this OR b\<rparr>)"

definition xEventGroupClearBits :: "uint32 \<Rightarrow> speaker \<Rightarrow> speaker" where
  "xEventGroupClearBits b this = this\<lparr>event_group := event_group this AND NOT b\<rparr>"

text \<open>
  \<^verbatim>\<open>I2SAudioSpeaker::set_volume\<close> stores the volume and the table entry at the
  remapped index. An index outside the vector is undefined behaviour in C++ and
  \<open>None\<close> in the model.
\<close>

definition set_volume :: "real \<Rightarrow> speaker \<Rightarrow> speaker option" where
  "set_volume vol this =
     (let decibel_index = remap vol 0 1 0 (int (length q15_volume_scaling_factors) - 1)
      in if 0 \<le> decibel_index \<and> decibel_index < int (length q15_volume_scaling_factors)
         then Some (this\<lparr>volume := vol,
                         q15_volume_factor := q15_volume_scaling_factors ! nat decibel_index\<rparr>)
         else None)"

text \<open>
  \<^verbatim>\<open>I2SAudioSpeaker::q15_multiplication(input, output, len, c)\<close>. The two pointers
  are offsets into one sample memory, so that the in-place call of the speaker task
  (\<open>input = output\<close>) is the same function. One loop iteration widens sample and factor
  to 32 bits, multiplies, shifts right by 15 and narrows to 16 bits. The shift of a
  negative accumulator is arithmetic, as GCC compiles it and as C++20 defines it.
  A block that reaches beyond the memory is undefined behaviour in C++; the properties
  below are stated for blocks inside it.
\<close>

definition q15_sample :: "int16 \<Rightarrow> int16 \<Rightarrow> int16" where
  "q15_sample x c =
     (let acc = (scast x :: int32) * (scast c :: int32)
      in ucast (signed_drop_bit 15 acc))"

function q15_loop :: "int16 list \<Rightarrow> nat \<Rightarrow> nat \<Rightarrow> nat \<Rightarrow> int16 \<Rightarrow> nat \<Rightarrow> int16 list" where
  "q15_loop mem input output len c i =
     (if i < len
      then q15_loop (mem[output + i := q15_sample (mem ! (input + i)) c]) input output len c (Suc i)
      else mem)"
  by pat_completeness auto
termination
  by (relation "measure (\<lambda>(mem, input, output, len, c, i). len - i)") auto

declare q15_loop.simps [simp del]

definition q15_multiplication :: "int16 list \<Rightarrow> nat \<Rightarrow> nat \<Rightarrow> nat \<Rightarrow> int16 \<Rightarrow> int16 list" where
  "q15_multiplication mem input output len c = q15_loop mem input output len c 0"


section \<open>I2S speaker: the component's API\<close>

text \<open>
  \<^verbatim>\<open>I2SAudioSpeaker::start\<close>. \<open>task_create_ok\<close> is whether \<^verbatim>\<open>xTaskCreate\<close>
  returns a handle; the task it creates is \<open>speaker_task\<close> below.
\<close>

definition start :: "bool \<Rightarrow> speaker \<Rightarrow> speaker" where
  "start task_create_ok this =
     (if failed this then this
      else if state this = speaker_STATE_STARTING \<or> state this = speaker_STATE_RUNNING then this
      else
        let this1 = (if \<not> speaker_task_handle this
                     then this\<lparr>speaker_task_handle := task_create_ok\<rparr> else this)
        in if speaker_task_handle this1
           then (xEventGroupSetBits COMMAND_START this1)\<lparr>task_created := True\<rparr>
           else xEventGroupSetBits ERR_TASK_FAILED_TO_START this1)"

text \<open>\<^verbatim>\<open>I2SAudioSpeaker::stop_(bool wait_on_empty)\<close>, named \<open>stop_impl\<close> here, and its
  two public callers.\<close>

definition stop_impl :: "bool \<Rightarrow> speaker \<Rightarrow> speaker" where
  "stop_impl wait_on_empty this =
     (if failed this then this
      else if state this = speaker_STATE_STOPPED then this
      else if wait_on_empty then xEventGroupSetBits COMMAND_STOP_GRACEFULLY this
      else xEventGroupSetBits COMMAND_STOP this)"

definition stop :: "speaker \<Rightarrow> speaker" where
  "stop this = stop_impl False this"

definition finish :: "speaker \<Rightarrow> speaker" where
  "finish this = stop_impl True this"

text \<open>\<^verbatim>\<open>I2SAudioSpeaker::loop\<close>, the component's polling function. All five tests
  are on the value of the event group read at entry.\<close>

definition loop :: "speaker \<Rightarrow> speaker" where
  "loop this =
     (let event_group_bits = event_group this;
          this1 = (if test_bits event_group_bits ERROR_BITS then this\<lparr>warning := True\<rparr> else this);
          this2 = (if test_bits event_group_bits STATE_STARTING
                   then xEventGroupClearBits STATE_STARTING (this1\<lparr>state := speaker_STATE_STARTING\<rparr>)
                   else this1);
          this3 = (if test_bits event_group_bits STATE_RUNNING
                   then xEventGroupClearBits STATE_RUNNING (this2\<lparr>state := speaker_STATE_RUNNING\<rparr>)
                   else this2);
          this4 = (if test_bits event_group_bits STATE_STOPPING
                   then xEventGroupClearBits STATE_STOPPING (this3\<lparr>state := speaker_STATE_STOPPING\<rparr>)
                   else this3)
      in if test_bits event_group_bits STATE_STOPPED \<and> \<not> task_created this4
         then (xEventGroupClearBits ALL_BITS (this4\<lparr>state := speaker_STATE_STOPPED\<rparr>))
                \<lparr>speaker_task_handle := False\<rparr>
         else this4)"

text \<open>
  \<^verbatim>\<open>I2SAudioSpeaker::play\<close>, as far as the shared state goes. \<open>accepted\<close> is the count
  \<^verbatim>\<open>write_without_replacement\<close> returns. The wait of at most 10 ms for the ring buffer
  bit is read as a test of the bit when \<^verbatim>\<open>play\<close> is called.
\<close>

definition play :: "bool \<Rightarrow> nat \<Rightarrow> speaker \<Rightarrow> nat \<times> speaker" where
  "play task_create_ok accepted this =
     (if failed this then (0, this)
      else
        let this1 = (if state this \<noteq> speaker_STATE_RUNNING \<and> state this \<noteq> speaker_STATE_STARTING
                     then start task_create_ok this else this);
            event_bits = event_group this1
        in if test_bits event_bits MESSAGE_RING_BUFFER_AVAILABLE_TO_WRITE
           then
             let this2 = xEventGroupClearBits MESSAGE_RING_BUFFER_AVAILABLE_TO_WRITE this1;
                 bytes_written = accepted;
                 this3 = xEventGroupSetBits MESSAGE_RING_BUFFER_AVAILABLE_TO_WRITE this2
             in (bytes_written, this3)
           else (0, this1))"

text \<open>The calls another thread can make on the component while the task exists.\<close>

datatype api_call =
    CallStart bool
  | CallStop
  | CallFinish
  | CallLoop
  | CallPlay bool nat
  | CallSetVolume real

fun api_step :: "api_call \<Rightarrow> speaker \<Rightarrow> speaker" where
  "api_step (CallStart ok) this = start ok this"
| "api_step CallStop this = stop this"
| "api_step CallFinish this = finish this"
| "api_step CallLoop this = loop this"
| "api_step (CallPlay ok n) this = snd (play ok n this)"
| "api_step (CallSetVolume v) this = (case set_volume v this of Some this' \<Rightarrow> this' | None \<Rightarrow> this)"

fun api_calls :: "api_call list \<Rightarrow> speaker \<Rightarrow> speaker" where
  "api_calls [] this = this"
| "api_calls (c # cs) this = api_calls cs (api_step c this)"

section \<open>I2S speaker: the output task\<close>

definition NUMBER_OF_CHANNELS :: nat where "NUMBER_OF_CHANNELS = 2"
definition DMA_BUFFER_SIZE :: nat where "DMA_BUFFER_SIZE = 512"
definition SAMPLES_IN_ONE_DMA_BUFFER :: nat where
  "SAMPLES_IN_ONE_DMA_BUFFER = DMA_BUFFER_SIZE * NUMBER_OF_CHANNELS"
definition DMA_BUFFERS_COUNT :: nat where "DMA_BUFFERS_COUNT = 4"
definition SAMPLES_IN_ALL_DMA_BUFFERS :: nat where
  "SAMPLES_IN_ALL_DMA_BUFFERS = SAMPLES_IN_ONE_DMA_BUFFER * DMA_BUFFERS_COUNT"

text \<open>
  What the task is handed by its surroundings during set-up: the results of the two
  allocations and of the three driver calls, the clock at the start of the loop, and the
  value of \<^verbatim>\<open>get_bytes_per_sample()\<close> (declared in \<^verbatim>\<open>esphome/core/audio.h\<close>, which is
  not among the sources, and used for sizes only).
\<close>

record task_env =
  data_buffer_alloc :: "int16 list option"
  ring_buffer_alloc :: bool
  install_err :: esp_err
  set_pin_err :: esp_err
  set_clk_err :: esp_err
  bytes_per_sample :: nat
  start_millis :: uint32

text \<open>
  What one pass of the loop is handed: \<^verbatim>\<open>millis()\<close> at the loop condition, the API
  calls other threads made since the previous pass (they take effect before the pass reads
  the event group, each as a whole), the bytes the ring buffer can deliver
  within the 10 ms of the read and the buffer contents after the read, \<^verbatim>\<open>millis()\<close>
  after a non-empty read, and the count the driver stores in \<^verbatim>\<open>bytes_written\<close>.
\<close>

record iteration =
  now :: uint32
  calls :: "api_call list"
  available :: nat
  received :: "int16 list"
  received_at :: uint32
  written :: nat

text \<open>Modelled from the spec: \<^verbatim>\<open>RingBuffer::read\<close> is not among the sources; it returns
  0 if no data arrives within the time-out and otherwise at most the requested number of
  bytes.\<close>

definition ring_buffer_read :: "nat \<Rightarrow> iteration \<Rightarrow> nat" where
  "ring_buffer_read bytes_to_read it = min (available it) bytes_to_read"

datatype task_status =
    BlockedOnCommand
  | Running bool uint32
  | BlockedOnRingBuffer
  | TaskDeleted

datatype loop_result = LoopRunning bool uint32 | LoopExit

text \<open>
  \<^verbatim>\<open>I2SAudioSpeaker::delete_task_\<close>. The wait for the ring buffer bit has no time
  limit (\<^verbatim>\<open>portMAX_DELAY\<close>, "Block indefinitely" in the source's comment): with the
  bit clear the task stays in the wait. The data buffer pointer keeps its value after
  the deallocation, as in the source. \<^verbatim>\<open>vTaskDelete(NULL)\<close> does not return.
\<close>

definition delete_task :: "speaker \<Rightarrow> task_status \<times> speaker" where
  "delete_task this =
     (if audio_ring_buffer this \<and> \<not> test_bits (event_group this) MESSAGE_RING_BUFFER_AVAILABLE_TO_WRITE
      then (BlockedOnRingBuffer, this)
      else
        let this1 = (if audio_ring_buffer this
                     then log_action RingBufferReset (this\<lparr>audio_ring_buffer := False\<rparr>)
                     else this);
            this2 = (if data_buffer this1 \<noteq> None then log_action Deallocate this1 else this1);
            this3 = xEventGroupSetBits STATE_STOPPED this2;
            this4 = this3\<lparr>task_created := False\<rparr>
        in (TaskDeleted, log_action TaskDelete this4))"

text \<open>\<^verbatim>\<open>I2SAudioSpeaker::set_event_group_error_\<close>.\<close>

fun set_event_group_error :: "esp_err \<Rightarrow> speaker \<Rightarrow> bool \<times> speaker" where
  "set_event_group_error ESP_OK this = (True, this)"
| "set_event_group_error ESP_ERR_INVALID_STATE this = (False, xEventGroupSetBits ERR_INVALID_STATE this)"
| "set_event_group_error ESP_ERR_INVALID_ARG this = (False, xEventGroupSetBits ERR_INVALID_ARG this)"
| "set_event_group_error ESP_ERR_INVALID_SIZE this = (False, xEventGroupSetBits ERR_INVALID_SIZE this)"
| "set_event_group_error ESP_ERR_NO_MEM this = (False, xEventGroupSetBits ERR_NO_MEM this)"
| "set_event_group_error _ this = (False, xEventGroupSetBits ERR_FAIL this)"

text \<open>\<^verbatim>\<open>I2SAudioSpeaker::start_i2s_driver_\<close>: lock the bus, install the driver, set
  the pins; each failure undoes what was done before it.\<close>

definition start_i2s_driver :: "task_env \<Rightarrow> speaker \<Rightarrow> esp_err \<times> speaker" where
  "start_i2s_driver env this =
     (if parent_locked this then (ESP_ERR_INVALID_STATE, this)
      else
        let this1 = this\<lparr>parent_locked := True\<rparr>
        in if install_err env \<noteq> ESP_OK
           then (install_err env, log_action ParentUnlock (this1\<lparr>parent_locked := False\<rparr>))
           else
             let this2 = log_action DriverInstall (this1\<lparr>driver_installed := True\<rparr>)
             in if set_pin_err env \<noteq> ESP_OK
                then (set_pin_err env,
                      log_action ParentUnlock
                        ((log_action DriverUninstall (this2\<lparr>driver_installed := False\<rparr>))
                           \<lparr>parent_locked := False\<rparr>))
                else (set_pin_err env, this2))"

text \<open>\<^verbatim>\<open>I2SAudioSpeaker::set_i2s_stream_info_\<close>.\<close>

definition set_i2s_stream_info :: "task_env \<Rightarrow> AudioStreamInfo \<Rightarrow> speaker \<Rightarrow> esp_err \<times> speaker" where
  "set_i2s_stream_info env info this =
     (let this1 = (if i2s_mode_master this
                   then this\<lparr>sample_rate := stream_sample_rate info,
                             bits_per_sample := stream_bits_per_sample info\<rparr>
                   else this)
      in if channels info = 1 then (set_clk_err env, this1)
         else if channels info = 2 then (set_clk_err env, this1)
         else (ESP_ERR_INVALID_ARG, this1))"

text \<open>
  The body of \<^verbatim>\<open>if (bytes_read > 0)\<close> without the clock read: scale in place unless
  the stream is wider than 16 bits or the factor is \<^verbatim>\<open>INT16_MAX\<close>, write (expanding a
  narrower stream; a wider stream is written nowhere and \<^verbatim>\<open>bytes_written\<close> stays 0),
  and flag a short write.
\<close>

definition write_received :: "AudioStreamInfo \<Rightarrow> nat \<Rightarrow> nat \<Rightarrow> int16 list \<Rightarrow> speaker \<Rightarrow> speaker" where
  "write_received info bytes_read driver_written buf this =
     (let scaled = (if stream_bits_per_sample info \<le> 16 \<and> sint (q15_volume_factor this) < sint INT16_MAX
                    then q15_multiplication buf 0 0 (bytes_read div 2) (q15_volume_factor this)
                    else buf);
          this1 = this\<lparr>data_buffer := Some scaled\<rparr>;
          (bytes_written, this2) =
             (if stream_bits_per_sample info = bits_per_sample this1 mod 256
              then (driver_written, log_action (I2SWrite scaled bytes_read) this1)
              else if stream_bits_per_sample info < bits_per_sample this1 mod 256
              then (driver_written, log_action (I2SWriteExpand scaled bytes_read) this1)
              else (0, this1))
      in if bytes_written \<noteq> bytes_read then xEventGroupSetBits ERR_INVALID_SIZE this2 else this2)"

text \<open>
  The \<^verbatim>\<open>while\<close> loop of \<^verbatim>\<open>speaker_task\<close>, one list element per pass. The clock
  difference is unsigned 32-bit arithmetic. When the list is used up the loop is still
  running, with its two local variables.
\<close>

fun speaker_task_loop ::
  "AudioStreamInfo \<Rightarrow> nat \<Rightarrow> iteration list \<Rightarrow> bool \<Rightarrow> uint32 \<Rightarrow> speaker \<Rightarrow> loop_result \<times> speaker" where
  "speaker_task_loop info bps [] stop_gracefully last_data_received_time this =
     (LoopRunning stop_gracefully last_data_received_time, this)"
| "speaker_task_loop info bps (it # its) stop_gracefully last_data_received_time this =
     (if now it - last_data_received_time \<le> timeout this
      then
        let this1 = api_calls (calls it) this;
            event_group_bits = event_group this1
        in if test_bits event_group_bits COMMAND_STOP
           then (LoopExit, log_action ZeroDmaBuffer this1)
           else
             let stop_gracefully1 =
                   (if test_bits event_group_bits COMMAND_STOP_GRACEFULLY then True else stop_gracefully);
                 bytes_to_read = SAMPLES_IN_ALL_DMA_BUFFERS * bps;
                 bytes_read = ring_buffer_read bytes_to_read it;
                 this2 = log_action (RingRead bytes_read) this1
             in if bytes_read > 0
                then speaker_task_loop info bps its stop_gracefully1 (received_at it)
                       (write_received info bytes_read (written it) (received it) this2)
                else
                  let this3 = log_action ZeroDmaBuffer this2
                  in if stop_gracefully1 then (LoopExit, this3)
                     else speaker_task_loop info bps its stop_gracefully1 last_data_received_time this3
      else (LoopExit, this))"

text \<open>The end of \<^verbatim>\<open>speaker_task\<close>, from the \<^verbatim>\<open>STATE_STOPPING\<close> report on.\<close>

definition teardown :: "speaker \<Rightarrow> task_status \<times> speaker" where
  "teardown this =
     (let this1 = xEventGroupSetBits STATE_STOPPING this;
          this2 = log_action I2SStop this1;
          this3 = log_action DriverUninstall (this2\<lparr>driver_installed := False\<rparr>);
          this4 = log_action ParentUnlock (this3\<lparr>parent_locked := False\<rparr>)
      in delete_task this4)"

text \<open>
  \<^verbatim>\<open>I2SAudioSpeaker::speaker_task\<close>, in two parts. \<open>speaker_task_setup\<close> is the
  function up to the loop: the first wait returns once a command bit is set and clears the
  three command bits; each call of \<^verbatim>\<open>delete_task_\<close> ends the function, since the task
  is deleted inside it. The result is either how the task ended during set-up (\<open>Inl\<close>) or
  the local copy of the stream info with the state at the head of the loop (\<open>Inr\<close>).
  No other thread runs during set-up (the task has the higher priority).
\<close>

definition speaker_task_setup ::
  "task_env \<Rightarrow> speaker \<Rightarrow> (task_status \<times> speaker) + (AudioStreamInfo \<times> speaker)" where
  "speaker_task_setup env this =
     (let event_group_bits = event_group this
      in if \<not> test_bits event_group_bits (COMMAND_START OR COMMAND_STOP OR COMMAND_STOP_GRACEFULLY)
         then Inl (BlockedOnCommand, this)
         else
           let this1 = xEventGroupClearBits (COMMAND_START OR COMMAND_STOP OR COMMAND_STOP_GRACEFULLY) this
           in if test_bits event_group_bits (COMMAND_STOP OR COMMAND_STOP_GRACEFULLY)
              then Inl (delete_task this1)
              else
                let this2 = xEventGroupSetBits STATE_STARTING this1;
                    info = audio_stream_info this2;
                    this3 = this2\<lparr>data_buffer := data_buffer_alloc env\<rparr>;
                    this4 = (if \<not> audio_ring_buffer this3
                             then this3\<lparr>audio_ring_buffer := ring_buffer_alloc env\<rparr> else this3)
                in if data_buffer this4 = None \<or> \<not> audio_ring_buffer this4
                   then Inl (delete_task (xEventGroupSetBits ERR_NO_MEM this4))
                   else
                     let (err, this5) = start_i2s_driver env this4;
                         (ok, this6) = set_event_group_error err this5
                     in if \<not> ok then Inl (delete_task this6)
                        else
                          let (err2, this7) = set_i2s_stream_info env info this6;
                              (ok2, this8) = set_event_group_error err2 this7
                          in if ok2
                             then Inr (info,
                                       xEventGroupSetBits
                                         (STATE_RUNNING OR MESSAGE_RING_BUFFER_AVAILABLE_TO_WRITE) this8)
                             else Inl (teardown this8))"

text \<open>The whole task: set-up, then the loop from \<^verbatim>\<open>stop_gracefully = false\<close> and the
  clock at its start, then the tear-down once the loop is left.\<close>

definition speaker_task :: "task_env \<Rightarrow> iteration list \<Rightarrow> speaker \<Rightarrow> task_status \<times> speaker" where
  "speaker_task env its this =
     (case speaker_task_setup env this of
        Inl ended \<Rightarrow> ended
      | Inr (info, this9) \<Rightarrow>
          (case speaker_task_loop info (bytes_per_sample env) its False (start_millis env) this9 of
             (LoopRunning g t, this10) \<Rightarrow> (Running g t, this10)
           | (LoopExit, this10) \<Rightarrow> teardown this10))"

section \<open>Media player: command queue, published state and speaker task\<close>

definition QUEUE_COUNT :: nat where "QUEUE_COUNT = 20"

datatype MediaPlayerState =
    MEDIA_PLAYER_STATE_IDLE
  | MEDIA_PLAYER_STATE_PLAYING
  | MEDIA_PLAYER_STATE_PAUSED
  | MEDIA_PLAYER_STATE_ANNOUNCING

datatype MediaPlayerCommand =
    MEDIA_PLAYER_COMMAND_PLAY
  | MEDIA_PLAYER_COMMAND_PAUSE
  | MEDIA_PLAYER_COMMAND_STOP
  | MEDIA_PLAYER_COMMAND_MUTE
  | MEDIA_PLAYER_COMMAND_UNMUTE
  | MEDIA_PLAYER_COMMAND_TOGGLE
  | MEDIA_PLAYER_COMMAND_VOLUME_UP
  | MEDIA_PLAYER_COMMAND_VOLUME_DOWN

text \<open>The members of \<^verbatim>\<open>PipelineState\<close> and \<^verbatim>\<open>CommandEventType\<close> that
  \<^verbatim>\<open>nabu_media_player.cpp\<close> uses.\<close>

datatype PipelineState =
    PipelineState_STARTING
  | PipelineState_STARTED
  | PipelineState_PLAYING
  | PipelineState_STOPPING
  | PipelineState_STOPPED

datatype CommandEventType =
    CommandEventType_STOP
  | CommandEventType_PAUSE_MEDIA
  | CommandEventType_RESUME_MEDIA
  | CommandEventType_DUCK

record CommandEvent =
  command :: CommandEventType
  ducking_ratio :: real

text \<open>The call object handed to \<^verbatim>\<open>control\<close> (its four getters) and the command
  \<^verbatim>\<open>control\<close> builds from it.\<close>

record MediaPlayerCall =
  get_media_url :: "string option"
  get_announcement :: "bool option"
  get_volume :: "real option"
  get_command :: "MediaPlayerCommand option"

record MediaCallCommand =
  mc_command :: "MediaPlayerCommand option"
  mc_volume :: "real option"
  mc_announce :: "bool option"
  mc_new_url :: "bool option"

datatype dac_request = DacMute | DacUnmute

record nabu_player =
  player_state :: MediaPlayerState
  announcement_pipeline_state :: PipelineState
  media_pipeline_state :: PipelineState
  is_paused :: bool
  is_idle_muted :: bool
  is_muted :: bool
  media_control_command_queue :: "MediaCallCommand list"
  announcement_url :: "string option"
  media_url :: "string option"
  dac_requests :: "dac_request list"
  published :: "MediaPlayerState list"

text \<open>
  Modelled from the spec: FreeRTOS's \<^verbatim>\<open>xQueueSend\<close> is not among the sources. A send
  on a queue with room appends; on a full queue it waits for room for at most
  \<open>ticks_to_wait\<close> and then gives up, leaving the queue as it was (the specification's
  blocking-with-timeout send). With \<^verbatim>\<open>portMAX_DELAY\<close> the wait has no limit ("Block
  indefinitely", as the comments of \<^verbatim>\<open>i2s_audio_speaker.cpp\<close> put it). \<open>frees\<close> is the
  number of ticks after which the receiving side takes the oldest element off the full
  queue, \<open>None\<close> if it never does.
\<close>

datatype ticks = Ticks nat | portMAX_DELAY

datatype 'q send_result = pdTRUE 'q | errQUEUE_FULL | SendBlocked

definition xQueueSend :: "nat \<Rightarrow> nat option \<Rightarrow> 'a list \<Rightarrow> 'a \<Rightarrow> ticks \<Rightarrow> 'a list send_result" where
  "xQueueSend capacity frees queue item ticks_to_wait =
     (if length queue < capacity then pdTRUE (queue @ [item])
      else
        (case frees of
           Some t \<Rightarrow>
             (case ticks_to_wait of
                portMAX_DELAY \<Rightarrow> pdTRUE (tl queue @ [item])
              | Ticks n \<Rightarrow> if t \<le> n then pdTRUE (tl queue @ [item]) else errQUEUE_FULL)
         | None \<Rightarrow>
             (case ticks_to_wait of
                portMAX_DELAY \<Rightarrow> SendBlocked
              | Ticks n \<Rightarrow> errQUEUE_FULL)))"

datatype control_result = Returned nabu_player | CallerBlocked

text \<open>The three identical sends of \<^verbatim>\<open>control\<close>; the result of \<^verbatim>\<open>xQueueSend\<close> is
  not looked at.\<close>

definition send_media_command :: "nat option \<Rightarrow> MediaCallCommand \<Rightarrow> nabu_player \<Rightarrow> control_result" where
  "send_media_command frees media_command this =
     (case xQueueSend QUEUE_COUNT frees (media_control_command_queue this) media_command portMAX_DELAY of
        pdTRUE q \<Rightarrow> Returned (this\<lparr>media_control_command_queue := q\<rparr>)
      | errQUEUE_FULL \<Rightarrow> Returned this
      | SendBlocked \<Rightarrow> CallerBlocked)"

text \<open>\<^verbatim>\<open>NabuMediaPlayer::control\<close>.\<close>

definition control :: "nat option \<Rightarrow> MediaPlayerCall \<Rightarrow> nabu_player \<Rightarrow> control_result" where
  "control frees call this =
     (let media_command = \<lparr>mc_command = None, mc_volume = None, mc_announce = None, mc_new_url = None\<rparr>
      in case get_media_url call of
           Some new_uri \<Rightarrow>
             if get_announcement call = Some True
             then send_media_command frees
                    (media_command\<lparr>mc_new_url := Some True, mc_announce := Some True\<rparr>)
                    (this\<lparr>announcement_url := Some new_uri\<rparr>)
             else send_media_command frees
                    (media_command\<lparr>mc_new_url := Some True, mc_announce := Some False\<rparr>)
                    (this\<lparr>media_url := Some new_uri\<rparr>)
         | None \<Rightarrow>
             (case get_volume call of
                Some v \<Rightarrow> send_media_command frees (media_command\<lparr>mc_volume := Some v\<rparr>) this
              | None \<Rightarrow>
                  (case get_command call of
                     Some c \<Rightarrow>
                       send_media_command frees
                         ((if get_announcement call = Some True
                           then media_command\<lparr>mc_announce := Some True\<rparr> else media_command)
                            \<lparr>mc_command := Some c\<rparr>)
                         this
                   | None \<Rightarrow> Returned this)))"

text \<open>\<^verbatim>\<open>mute_\<close> and \<^verbatim>\<open>unmute_\<close> write DAC registers; \<^verbatim>\<open>loop\<close> ignores whether the
  writes succeed, so only the request is recorded.\<close>

definition mute :: "nabu_player \<Rightarrow> nabu_player" where
  "mute this = this\<lparr>dac_requests := dac_requests this @ [DacMute]\<rparr>"

definition unmute :: "nabu_player \<Rightarrow> nabu_player" where
  "unmute this = this\<lparr>dac_requests := dac_requests this @ [DacUnmute]\<rparr>"

definition publish_state :: "nabu_player \<Rightarrow> nabu_player" where
  "publish_state this = this\<lparr>published := published this @ [player_state this]\<rparr>"

text \<open>
  \<^verbatim>\<open>NabuMediaPlayer::loop\<close>. \<open>watch\<close> stands for the three calls at its head
  (\<^verbatim>\<open>watch_media_commands_\<close>, \<^verbatim>\<open>watch_\<close>, \<^verbatim>\<open>watch_speaker_\<close>), which update the
  sub-states from the queues of the pipelines and the mixer; the rest is the source's
  state derivation.
\<close>

definition nabu_loop :: "(nabu_player \<Rightarrow> nabu_player) \<Rightarrow> nabu_player \<Rightarrow> nabu_player" where
  "nabu_loop watch this0 =
     (let this = watch this0;
          old_state = player_state this;
          this1 =
            (if announcement_pipeline_state this \<noteq> PipelineState_STOPPING \<and>
                announcement_pipeline_state this \<noteq> PipelineState_STOPPED
             then
               let t = this\<lparr>player_state := MEDIA_PLAYER_STATE_ANNOUNCING\<rparr>
               in if is_idle_muted t \<and> \<not> is_muted t then (unmute t)\<lparr>is_idle_muted := False\<rparr> else t
             else if is_paused this
             then
               let t = this\<lparr>player_state := MEDIA_PLAYER_STATE_PAUSED\<rparr>
               in if \<not> is_idle_muted t then (mute t)\<lparr>is_idle_muted := True\<rparr> else t
             else if media_pipeline_state this = PipelineState_STOPPING \<or>
                     media_pipeline_state this = PipelineState_STOPPED
             then
               let t = this\<lparr>player_state := MEDIA_PLAYER_STATE_IDLE\<rparr>
               in if \<not> is_idle_muted t then (mute t)\<lparr>is_idle_muted := True\<rparr> else t
             else
               let t = this\<lparr>player_state := MEDIA_PLAYER_STATE_PLAYING\<rparr>
               in if is_idle_muted t \<and> \<not> is_muted t then (unmute t)\<lparr>is_idle_muted := False\<rparr> else t)
      in if player_state this1 \<noteq> old_state then publish_state this1 else this1)"

text \<open>
  \<^verbatim>\<open>NabuMediaPlayer::speaker_task\<close>. The set-up results and, per pass of the loop,
  the command received within 10 ticks (if any), the bytes the mixer can deliver and the
  buffer after the read, and the driver's \<^verbatim>\<open>bytes_written\<close>. The local \<^verbatim>\<open>event\<close>
  keeps its \<^verbatim>\<open>err\<close> field between sends, as in the source. The log holds the events in
  the order of their \<^verbatim>\<open>xQueueSend\<close> calls. After \<^verbatim>\<open>STOPPED\<close> the task idles until
  \<^verbatim>\<open>watch_speaker_\<close> deletes it.
\<close>

record nabu_task_env =
  buffer_alloc :: bool
  nabu_install_err :: esp_err
  nabu_set_pin_err :: esp_err
  initial_err :: esp_err
  is_16bit :: bool

record nabu_iteration =
  queue_command :: "CommandEvent option"
  mixer_available :: nat
  mixed :: "int16 list"
  driver_written :: nat

text \<open>Modelled from the spec: \<^verbatim>\<open>CombineStreamer::read\<close> is not among the sources; like
  the ring buffer's read it returns at most the requested number of bytes.\<close>

definition combine_streamer_read :: "nat \<Rightarrow> nabu_iteration \<Rightarrow> nat" where
  "combine_streamer_read bytes_to_read it = min (mixer_available it) bytes_to_read"

datatype nabu_task_status = NabuRunning | NabuParked

definition send_event :: "TaskEvent \<Rightarrow> action list \<Rightarrow> action list" where
  "send_event event tr = tr @ [QueueSend event]"

fun nabu_speaker_loop ::
  "bool \<Rightarrow> nabu_iteration list \<Rightarrow> TaskEvent \<Rightarrow> action list \<Rightarrow> bool \<times> TaskEvent \<times> action list" where
  "nabu_speaker_loop sixteen [] event tr = (False, event, tr)"
| "nabu_speaker_loop sixteen (it # its) event tr =
     (if (case queue_command it of
            Some command_event \<Rightarrow> command command_event = CommandEventType_STOP
          | None \<Rightarrow> False)
      then (True, event, tr)
      else
        let bytes_to_read = DMA_BUFFER_SIZE * 2 * 2;
            bytes_read = combine_streamer_read bytes_to_read it
        in if bytes_read > 0
           then
             let tr1 = tr @ [if sixteen then I2SWrite (mixed it) bytes_read
                             else I2SWriteExpand (mixed it) bytes_read]
             in if driver_written it \<noteq> bytes_read
                then
                  let event1 = event\<lparr>event_type := EventType_WARNING, event_err := ESP_ERR_TIMEOUT\<rparr>
                  in nabu_speaker_loop sixteen its event1 (send_event event1 tr1)
                else
                  let event1 = event\<lparr>event_type := EventType_RUNNING\<rparr>
                  in nabu_speaker_loop sixteen its event1 (send_event event1 tr1)
           else
             let event1 = event\<lparr>event_type := EventType_IDLE\<rparr>
             in nabu_speaker_loop sixteen its event1 (send_event event1 (tr @ [ZeroDmaBuffer])))"

definition setup_failed :: "esp_err \<Rightarrow> action list \<Rightarrow> nabu_task_status \<times> action list" where
  "setup_failed err tr =
     (NabuParked,
      send_event \<lparr>event_type = EventType_STOPPED, event_err = ESP_OK\<rparr>
        (send_event \<lparr>event_type = EventType_WARNING, event_err = err\<rparr> tr))"

definition nabu_speaker_task :: "nabu_task_env \<Rightarrow> nabu_iteration list \<Rightarrow> nabu_task_status \<times> action list" where
  "nabu_speaker_task env its =
     (let event = \<lparr>event_type = EventType_STARTING, event_err = initial_err env\<rparr>;
          tr = send_event event []
      in if \<not> buffer_alloc env then setup_failed ESP_ERR_NO_MEM tr
         else if nabu_install_err env \<noteq> ESP_OK then setup_failed (nabu_install_err env) tr
         else
           let tr1 = tr @ [DriverInstall]
           in if nabu_set_pin_err env \<noteq> ESP_OK then setup_failed (nabu_set_pin_err env) tr1
              else
                let event1 = event\<lparr>event_type := EventType_STARTED\<rparr>;
                    tr2 = send_event event1 tr1
                in (case nabu_speaker_loop (is_16bit env) its event1 tr2 of
                      (False, event2, tr3) \<Rightarrow> (NabuRunning, tr3)
                    | (True, event2, tr3) \<Rightarrow>
                        let tr4 = send_event (event2\<lparr>event_type := EventType_STOPPING\<rparr>)
                                    (tr3 @ [ZeroDmaBuffer]);
                            tr5 = send_event (event2\<lparr>event_type := EventType_STOPPED\<rparr>)
                                    (tr4 @ [Deallocate, I2SStop, DriverUninstall])
                        in (NabuParked, tr5)))"

section \<open>Concrete inputs\<close>

text \<open>A speaker as \<^verbatim>\<open>setup()\<close> leaves it: stopped, no task, nothing allocated, an empty
  event group, the bus free, a mono 16-bit stream at 16 kHz, full volume and an idle
  time-out of 100 ms.\<close>

definition stopped_speaker :: speaker where
  "stopped_speaker =
     \<lparr>volume = 1, q15_volume_factor = 32767, event_group = 0, state = speaker_STATE_STOPPED,
      speaker_task_handle = False, task_created = False, audio_ring_buffer = False,
      data_buffer = None, timeout = 100, bits_per_sample = 16, sample_rate = 16000,
      i2s_mode_master = True,
      audio_stream_info = \<lparr>channels = 1, stream_bits_per_sample = 16, stream_sample_rate = 16000\<rparr>,
      failed = False, warning = False, parent_locked = False, driver_installed = False,
      trace = []\<rparr>"

text \<open>A media player whose command queue holds \<^verbatim>\<open>QUEUE_COUNT\<close> commands that have
  not been taken off yet.\<close>

definition busy_player :: nabu_player where
  "busy_player =
     \<lparr>player_state = MEDIA_PLAYER_STATE_PLAYING,
      announcement_pipeline_state = PipelineState_STOPPED,
      media_pipeline_state = PipelineState_PLAYING,
      is_paused = False, is_idle_muted = False, is_muted = False,
      media_control_command_queue =
        replicate 20 \<lparr>mc_command = Some MEDIA_PLAYER_COMMAND_VOLUME_UP, mc_volume = None,
                       mc_announce = None, mc_new_url = None\<rparr>,
      announcement_url = None, media_url = None, dac_requests = [], published = []\<rparr>"

definition volume_call :: MediaPlayerCall where
  "volume_call = \<lparr>get_media_url = None, get_announcement = None, get_volume = Some (1 / 2),
                   get_command = None\<rparr>"

text \<open>A speaker in its steady state (task created, buffers allocated, driver installed,
  state bits already consumed by \<^verbatim>\<open>loop\<close>), and a pass of the loop in which the
  ring buffer delivers 8 bytes of which the driver accepts 4.\<close>

definition running_speaker :: speaker where
  "running_speaker =
     stopped_speaker\<lparr>event_group := MESSAGE_RING_BUFFER_AVAILABLE_TO_WRITE,
                     state := speaker_STATE_RUNNING, speaker_task_handle := True,
                     task_created := True, audio_ring_buffer := True, data_buffer := Some [],
                     parent_locked := True, driver_installed := True\<rparr>"


text \<open>The media player's speaker task: a set-up without failures, a pass with a complete
  write, a pass with a short write, and a pass that receives the stop command.\<close>

definition nabu_env_ok :: nabu_task_env where
  "nabu_env_ok = \<lparr>buffer_alloc = True, nabu_install_err = ESP_OK, nabu_set_pin_err = ESP_OK,
                   initial_err = ESP_OK, is_16bit = True\<rparr>"

definition nabu_full_pass :: nabu_iteration where
  "nabu_full_pass = \<lparr>queue_command = None, mixer_available = 2048, mixed = [], driver_written = 2048\<rparr>"

definition nabu_short_pass :: nabu_iteration where
  "nabu_short_pass = \<lparr>queue_command = None, mixer_available = 2048, mixed = [], driver_written = 1024\<rparr>"

definition nabu_stop_pass :: nabu_iteration where
  "nabu_stop_pass =
     \<lparr>queue_command = Some \<lparr>command = CommandEventType_STOP, ducking_ratio = 0\<rparr>,
      mixer_available = 0, mixed = [], driver_written = 0\<rparr>"

text \<open>The I2S speaker's task: a set-up in which every allocation and driver call succeeds,
  a speaker whose bus is held by another component, a pass in which \<^verbatim>\<open>stop()\<close> was
  called while the ring buffer holds 8 bytes, a pass without data, and a pass without data
  after 200 ms.\<close>

definition env_ok :: task_env where
  "env_ok = \<lparr>data_buffer_alloc = Some [], ring_buffer_alloc = True, install_err = ESP_OK,
              set_pin_err = ESP_OK, set_clk_err = ESP_OK, bytes_per_sample = 2, start_millis = 0\<rparr>"

definition bus_taken_speaker :: speaker where
  "bus_taken_speaker = stopped_speaker\<lparr>parent_locked := True\<rparr>"

definition stop_pass :: iteration where
  "stop_pass = \<lparr>now = 60, calls = [CallStop], available = 8, received = [1, 2, 3, 4],
                 received_at = 61, written = 8\<rparr>"

definition empty_pass :: iteration where
  "empty_pass = \<lparr>now = 50, calls = [CallLoop], available = 0, received = [], received_at = 50,
                  written = 0\<rparr>"

definition late_pass :: iteration where
  "late_pass = \<lparr>now = 200, calls = [], available = 0, received = [], received_at = 200,
                 written = 0\<rparr>"

section \<open>Vocabulary of the ordering properties\<close>

text \<open>The event types a log holds, in order, and the lifecycle phase of an event type.
  \<open>precedes\<close> is the order of the lifecycle: a later phase, or both within the steady
  state.\<close>

fun event_types :: "action list \<Rightarrow> EventType list" where
  "event_types [] = []"
| "event_types (QueueSend e # tr) = event_type e # event_types tr"
| "event_types (_ # tr) = event_types tr"

fun phase :: "EventType \<Rightarrow> nat" where
  "phase EventType_STARTING = 0"
| "phase EventType_STARTED = 1"
| "phase EventType_RUNNING = 2"
| "phase EventType_IDLE = 2"
| "phase EventType_STOPPING = 3"
| "phase EventType_STOPPED = 4"
| "phase EventType_WARNING = 2"

definition precedes :: "EventType \<Rightarrow> EventType \<Rightarrow> bool" where
  "precedes a b = (phase a < phase b \<or> (phase a = 2 \<and> phase b = 2))"

definition lifecycle :: "action list \<Rightarrow> EventType list" where
  "lifecycle tr = filter (\<lambda>t. t \<noteq> EventType_WARNING) (event_types tr)"

text \<open>What holds of the shared state from the moment the task enters its loop: the ring
  buffer bit is set, no \<^verbatim>\<open>STATE_STOPPED\<close> report is pending, and both buffers exist.\<close>

definition steady_invariant :: "speaker \<Rightarrow> bool" where
  "steady_invariant s =
     (test_bits (event_group s) MESSAGE_RING_BUFFER_AVAILABLE_TO_WRITE
      \<and> \<not> test_bits (event_group s) STATE_STOPPED
      \<and> audio_ring_buffer s \<and> data_buffer s \<noteq> None)"

section \<open>Properties of the volume table and the gain stage\<close>

lemma length_q15_volume_scaling_factors: "length q15_volume_scaling_factors = 100"
  by (simp add: q15_volume_scaling_factors_def)

lemma sorted_q15_volume_scaling_factors: "sorted (map sint q15_volume_scaling_factors)"
  apply (simp only: q15_volume_scaling_factors_def list.map sorted2 sorted1)
  apply simp
  done

lemma q15_volume_scaling_factors_first: "q15_volume_scaling_factors ! 0 = 0"
  by (simp add: q15_volume_scaling_factors_def)

lemma q15_volume_scaling_factors_last: "q15_volume_scaling_factors ! 99 = 32767"
  by (simp add: q15_volume_scaling_factors_def)

lemma q15_volume_scaling_factors_50: "q15_volume_scaling_factors ! 50 = 1946"
  by (simp add: q15_volume_scaling_factors_def)

lemma remap_table_index: "remap v 0 1 0 99 = max 0 (min 99 (round (v * 99)))"
  by (simp add: remap_def)

lemma round_unit_interval:
  fixes v :: real
  assumes "0 \<le> v" "v \<le> 1"
  shows "0 \<le> round (v * 99) \<and> round (v * 99) \<le> 99"
proof -
  have "round (0::real) \<le> round (v * 99)"
    using assms by (intro round_mono) simp
  moreover have "round (v * 99) \<le> round (99::real)"
    using assms by (intro round_mono) simp
  ultimately show ?thesis by simp
qed

lemma set_volume_gain:
  assumes "0 \<le> v" "v \<le> 1"
  shows "map_option q15_volume_factor (set_volume v this) =
           Some (q15_volume_scaling_factors ! nat (round (v * 99)))"
  using round_unit_interval [OF assms]
  by (simp add: set_volume_def Let_def length_q15_volume_scaling_factors remap_table_index)

lemma gain_index_mono:
  assumes "i \<le> j" "j < 100"
  shows "sint (q15_volume_scaling_factors ! i) \<le> sint (q15_volume_scaling_factors ! j)"
proof -
  have "map sint q15_volume_scaling_factors ! i \<le> map sint q15_volume_scaling_factors ! j"
    using assms
    by (intro sorted_nth_mono [OF sorted_q15_volume_scaling_factors])
       (simp_all add: length_q15_volume_scaling_factors)
  then show ?thesis
    using assms by (simp add: length_q15_volume_scaling_factors)
qed

lemma sint16_bounds: "- 32768 \<le> sint (x::int16) \<and> sint x \<le> 32767"
  using sint_range_size [of x] by (simp add: word_size)

lemma sint_scast32: "sint (scast (x::int16) :: int32) = sint x"
  by (simp add: sint_up_scast is_up)

lemma int16_product_bound:
  fixes a b :: int
  assumes "- 32768 \<le> a" "a \<le> 32767" "- 32768 \<le> b" "b \<le> 32767"
  shows "\<bar>a * b\<bar> \<le> 1073741824"
proof -
  have "\<bar>a\<bar> \<le> 32768" "\<bar>b\<bar> \<le> 32768" using assms by auto
  then have "\<bar>a\<bar> * \<bar>b\<bar> \<le> 32768 * 32768" by (intro mult_mono) auto
  then show ?thesis by (simp add: abs_mult)
qed

text \<open>The 32-bit accumulator never overflows: it holds the exact integer product.\<close>

lemma sint_accumulator:
  "sint ((scast (x::int16) :: int32) * scast (c::int16)) = sint x * sint c"
proof -
  have b: "\<bar>sint x * sint c\<bar> \<le> 1073741824"
    using int16_product_bound sint16_bounds by blast
  have "sint ((scast x :: int32) * scast c) = signed_take_bit 31 (sint x * sint c)"
    by (simp add: sint_word_ariths sint_scast32)
  also have "\<dots> = sint x * sint c"
    using b by (intro signed_take_bit_int_eq_self) auto
  finally show ?thesis .
qed

lemma ucast_down_scast: "(ucast (w::int32) :: int16) = scast w"
  by (rule bit_word_eqI) (auto simp: bit_simps)

lemma q15_sample_word: "q15_sample x c = word_of_int (sint x * sint c div 2 ^ 15)"
proof -
  have "q15_sample x c = word_of_int (sint (signed_drop_bit 15 ((scast x :: int32) * scast c)))"
    by (simp add: q15_sample_def Let_def ucast_down_scast)
  then show ?thesis
    by (simp only: sint_signed_drop_bit_eq drop_bit_eq_div sint_accumulator)
qed

lemma q15_sample_nonneg_gain:
  assumes "0 \<le> sint c"
  shows "sint (q15_sample x c) = sint x * sint c div 2 ^ 15"
proof -
  let ?x = "sint x" and ?c = "sint c"
  have bx: "- 32768 \<le> ?x" "?x \<le> 32767" and bc: "?c \<le> 32767"
    using sint16_bounds by blast+
  have lo: "- 32768 * ?c \<le> ?x * ?c"
    using bx(1) assms by (intro mult_right_mono) auto
  have hi: "?x * ?c \<le> 32767 * ?c"
    using bx(2) assms by (intro mult_right_mono) auto
  have "(- 32768 * ?c) div 32768 \<le> ?x * ?c div 32768"
    using lo by (intro zdiv_mono1) auto
  then have l: "- 32768 \<le> ?x * ?c div 32768" using bc by simp
  have "?x * ?c div 32768 \<le> (32767 * ?c) div 32768"
    using hi by (intro zdiv_mono1) auto
  also have "\<dots> \<le> ?c" using assms by simp
  finally have h: "?x * ?c div 32768 \<le> 32767" using bc by simp
  have "sint (word_of_int (?x * ?c div 32768) :: int16) = ?x * ?c div 32768"
    using l h by (simp add: sint_sbintrunc' signed_take_bit_int_eq_self)
  then show ?thesis by (simp add: q15_sample_word)
qed

lemma q15_sample_zero: "q15_sample x 0 = 0"
  by (simp add: q15_sample_word)

lemma q15_sample_unity: "\<bar>sint (q15_sample x 32767) - sint x\<bar> \<le> 1"
proof -
  have c: "sint (32767 :: int16) = 32767" by simp
  have e: "sint (q15_sample x 32767) = sint x * 32767 div 32768"
    using q15_sample_nonneg_gain [of 32767 x] by (simp only: c) simp
  show ?thesis
    using sint16_bounds [of x] unfolding e by arith
qed

lemma q15_loop_in_place:
  assumes "inp = out" "out + len \<le> length mem"
  shows "length (q15_loop mem inp out len c i) = length mem \<and>
         (\<forall>j < length mem. q15_loop mem inp out len c i ! j =
            (if out + i \<le> j \<and> j < out + len then q15_sample (mem ! j) c else mem ! j))"
  using assms
proof (induction mem inp out len c i rule: q15_loop.induct)
  case (1 mem inp out len c i)
  show ?case
  proof (cases "i < len")
    case True
    let ?mem = "mem[out + i := q15_sample (mem ! (inp + i)) c]"
    have ih: "length (q15_loop ?mem inp out len c (Suc i)) = length ?mem \<and>
         (\<forall>j < length ?mem. q15_loop ?mem inp out len c (Suc i) ! j =
            (if out + Suc i \<le> j \<and> j < out + len then q15_sample (?mem ! j) c else ?mem ! j))"
      using "1.IH" [OF True] "1.prems" by simp
    have unf: "q15_loop mem inp out len c i = q15_loop ?mem inp out len c (Suc i)"
      using True by (subst q15_loop.simps) simp
    have "q15_loop ?mem inp out len c (Suc i) ! j =
            (if out + i \<le> j \<and> j < out + len then q15_sample (mem ! j) c else mem ! j)"
      if "j < length mem" for j
    proof (cases "j = out + i")
      case True
      with ih that \<open>i < len\<close> "1.prems" show ?thesis by simp
    next
      case False
      then have "out + Suc i \<le> j \<longleftrightarrow> out + i \<le> j" by arith
      with ih that False show ?thesis by simp
    qed
    with ih show ?thesis
      unfolding unf by simp
  next
    case False
    then show ?thesis by (subst q15_loop.simps, subst (2) q15_loop.simps) auto
  qed
qed

section \<open>Properties of the event group, the queue and the event log\<close>

lemma test_bits_single: "n < 32 \<Longrightarrow> test_bits v (push_bit n 1) = bit v n"
  by (simp add: test_bits_def and_exp_eq_0_iff_not_bit)

lemma test_bits_or: "test_bits v (a OR b) = (test_bits v a \<or> test_bits v b)"
  by (simp add: test_bits_def bit.conj_disj_distrib or_eq_0_iff)

lemma test_bits_consts:
  "test_bits v COMMAND_START = bit v 0"
  "test_bits v COMMAND_STOP = bit v 1"
  "test_bits v COMMAND_STOP_GRACEFULLY = bit v 2"
  "test_bits v MESSAGE_RING_BUFFER_AVAILABLE_TO_WRITE = bit v 5"
  "test_bits v STATE_STARTING = bit v 10"
  "test_bits v STATE_RUNNING = bit v 11"
  "test_bits v STATE_STOPPING = bit v 12"
  "test_bits v STATE_STOPPED = bit v 13"
  "test_bits v ERR_INVALID_STATE = bit v 16"
  "test_bits v ERR_INVALID_ARG = bit v 17"
  "test_bits v ERR_INVALID_SIZE = bit v 18"
  "test_bits v ERR_NO_MEM = bit v 19"
  "test_bits v ERR_FAIL = bit v 20"
  "test_bits v ERR_TASK_FAILED_TO_START = bit v 21"
  unfolding COMMAND_START_def COMMAND_STOP_def COMMAND_STOP_GRACEFULLY_def
    MESSAGE_RING_BUFFER_AVAILABLE_TO_WRITE_def STATE_STARTING_def STATE_RUNNING_def
    STATE_STOPPING_def STATE_STOPPED_def ERR_INVALID_STATE_def ERR_INVALID_ARG_def
    ERR_INVALID_SIZE_def ERR_NO_MEM_def ERR_FAIL_def ERR_TASK_FAILED_TO_START_def
  by (simp_all only: test_bits_single)

lemma test_bits_ERROR_BITS:
  "test_bits v ERROR_BITS = (bit v 16 \<or> bit v 17 \<or> bit v 18 \<or> bit v 19 \<or> bit v 20)"
  by (simp add: ERROR_BITS_def test_bits_or test_bits_consts)

lemma bit_single: "m < 32 \<Longrightarrow> bit (push_bit m (1::uint32)) n = (n = m)"
  by (auto simp: bit_exp_iff)

lemma bit_consts:
  "bit COMMAND_START n = (n = 0)"
  "bit COMMAND_STOP n = (n = 1)"
  "bit COMMAND_STOP_GRACEFULLY n = (n = 2)"
  "bit MESSAGE_RING_BUFFER_AVAILABLE_TO_WRITE n = (n = 5)"
  "bit STATE_STARTING n = (n = 10)"
  "bit STATE_RUNNING n = (n = 11)"
  "bit STATE_STOPPING n = (n = 12)"
  "bit STATE_STOPPED n = (n = 13)"
  "bit ERR_INVALID_STATE n = (n = 16)"
  "bit ERR_INVALID_ARG n = (n = 17)"
  "bit ERR_INVALID_SIZE n = (n = 18)"
  "bit ERR_NO_MEM n = (n = 19)"
  "bit ERR_FAIL n = (n = 20)"
  "bit ERR_TASK_FAILED_TO_START n = (n = 21)"
  unfolding COMMAND_START_def COMMAND_STOP_def COMMAND_STOP_GRACEFULLY_def
    MESSAGE_RING_BUFFER_AVAILABLE_TO_WRITE_def STATE_STARTING_def STATE_RUNNING_def
    STATE_STOPPING_def STATE_STOPPED_def ERR_INVALID_STATE_def ERR_INVALID_ARG_def
    ERR_INVALID_SIZE_def ERR_NO_MEM_def ERR_FAIL_def ERR_TASK_FAILED_TO_START_def
  by (simp_all only: bit_single)

lemma bit_ALL_BITS: "bit ALL_BITS n = (n < 24)"
proof -
  have e: "ALL_BITS = mask 24" by (simp add: ALL_BITS_def mask_eq_exp_minus_1)
  have "bit (mask 24 :: uint32) n = (n < 24)"
    by (auto simp add: bit_mask_iff)
  then show ?thesis unfolding e .
qed


lemma event_types_append: "event_types (a @ b) = event_types a @ event_types b"
  by (induction a rule: event_types.induct) auto

lemma lifecycle_append: "lifecycle (a @ b) = lifecycle a @ lifecycle b"
  by (simp add: lifecycle_def event_types_append)

lemma nabu_speaker_loop_step:
  "nabu_speaker_loop s (it # its) ev tr = (True, ev, tr) \<or>
   (\<exists>ev1 pre. nabu_speaker_loop s (it # its) ev tr = nabu_speaker_loop s its ev1 (tr @ pre)
        \<and> set (event_types pre) \<subseteq> {EventType_RUNNING, EventType_IDLE, EventType_WARNING})"
proof (cases "case queue_command it of
            Some command_event \<Rightarrow> command command_event = CommandEventType_STOP
          | None \<Rightarrow> False")
  case True
  then show ?thesis by simp
next
  case False
  let ?n = "combine_streamer_read (DMA_BUFFER_SIZE * 2 * 2) it"
  show ?thesis
  proof (cases "0 < ?n")
    case idle: False
    have "nabu_speaker_loop s (it # its) ev tr =
            nabu_speaker_loop s its (ev\<lparr>event_type := EventType_IDLE\<rparr>)
              (tr @ [ZeroDmaBuffer, QueueSend (ev\<lparr>event_type := EventType_IDLE\<rparr>)])"
      using False idle by (simp add: Let_def send_event_def)
    then show ?thesis by force
  next
    case data: True
    show ?thesis
    proof (cases "driver_written it \<noteq> ?n")
      case True
      let ?e = "ev\<lparr>event_type := EventType_WARNING, event_err := ESP_ERR_TIMEOUT\<rparr>"
      have "nabu_speaker_loop s (it # its) ev tr =
              nabu_speaker_loop s its ?e
                (tr @ [if s then I2SWrite (mixed it) ?n else I2SWriteExpand (mixed it) ?n, QueueSend ?e])"
        using False data True by (simp add: Let_def send_event_def)
      then show ?thesis by force
    next
      case short: False
      let ?e = "ev\<lparr>event_type := EventType_RUNNING\<rparr>"
      have "nabu_speaker_loop s (it # its) ev tr =
              nabu_speaker_loop s its ?e
                (tr @ [if s then I2SWrite (mixed it) ?n else I2SWriteExpand (mixed it) ?n, QueueSend ?e])"
        using False data short by (simp add: Let_def send_event_def)
      then show ?thesis by force
    qed
  qed
qed

lemma nabu_speaker_loop_extends:
  "\<exists>ext. snd (snd (nabu_speaker_loop s its ev tr)) = tr @ ext
      \<and> set (event_types ext) \<subseteq> {EventType_RUNNING, EventType_IDLE, EventType_WARNING}"
proof (induction its arbitrary: ev tr)
  case Nil
  show ?case by simp
next
  case (Cons it its)
  from nabu_speaker_loop_step [of s it its ev tr] show ?case
  proof
    assume "nabu_speaker_loop s (it # its) ev tr = (True, ev, tr)"
    then show ?thesis by simp
  next
    assume "\<exists>ev1 pre. nabu_speaker_loop s (it # its) ev tr = nabu_speaker_loop s its ev1 (tr @ pre)
        \<and> set (event_types pre) \<subseteq> {EventType_RUNNING, EventType_IDLE, EventType_WARNING}"
    then obtain ev1 pre where
      st: "nabu_speaker_loop s (it # its) ev tr = nabu_speaker_loop s its ev1 (tr @ pre)"
      and pre: "set (event_types pre) \<subseteq> {EventType_RUNNING, EventType_IDLE, EventType_WARNING}"
      by blast
    from Cons.IH [of ev1 "tr @ pre"] obtain ext where
      ext: "snd (snd (nabu_speaker_loop s its ev1 (tr @ pre))) = (tr @ pre) @ ext"
      and sub: "set (event_types ext) \<subseteq> {EventType_RUNNING, EventType_IDLE, EventType_WARNING}"
      by blast
    have "snd (snd (nabu_speaker_loop s (it # its) ev tr)) = tr @ (pre @ ext)"
      unfolding st ext by simp
    moreover have "set (event_types (pre @ ext)) \<subseteq> {EventType_RUNNING, EventType_IDLE, EventType_WARNING}"
      using pre sub by (simp add: event_types_append)
    ultimately show ?thesis by blast
  qed
qed

lemma steady_events_ordered:
  assumes "set ts \<subseteq> {EventType_RUNNING, EventType_IDLE, EventType_WARNING}"
  shows "sorted_wrt precedes (filter (\<lambda>t. t \<noteq> EventType_WARNING) ts)
       \<and> (\<forall>t \<in> set (filter (\<lambda>t. t \<noteq> EventType_WARNING) ts). phase t = 2)"
  using assms by (induction ts) (auto simp: precedes_def)

lemma send_media_command_cases:
  "send_media_command frees cmd this =
     (if length (media_control_command_queue this) < QUEUE_COUNT
      then Returned (this\<lparr>media_control_command_queue := media_control_command_queue this @ [cmd]\<rparr>)
      else if frees = None then CallerBlocked
      else Returned (this\<lparr>media_control_command_queue := tl (media_control_command_queue this) @ [cmd]\<rparr>))"
  by (simp add: send_media_command_def xQueueSend_def split: option.splits)

lemma control_is_one_send:
  assumes "get_media_url call \<noteq> None \<or> get_volume call \<noteq> None \<or> get_command call \<noteq> None"
  shows "\<exists>cmd this1. control frees call this = send_media_command frees cmd this1
           \<and> media_control_command_queue this1 = media_control_command_queue this
           \<and> mc_new_url cmd = (if get_media_url call \<noteq> None then Some True else None)
           \<and> mc_volume cmd = (if get_media_url call = None then get_volume call else None)
           \<and> mc_command cmd =
                (if get_media_url call = None \<and> get_volume call = None then get_command call else None)"
proof (cases "get_media_url call")
  case (Some u)
  then show ?thesis
    by (cases "get_announcement call = Some True") (force simp: control_def Let_def)+
next
  case None
  note url = this
  show ?thesis
  proof (cases "get_volume call")
    case (Some v)
    with url show ?thesis by (force simp: control_def Let_def)
  next
    case None
    with url assms obtain c where "get_command call = Some c" by auto
    with url None show ?thesis
      by (cases "get_announcement call = Some True") (force simp: control_def Let_def)+
  qed
qed

lemma lifecycle_steady:
  assumes "set (event_types ext) \<subseteq> {EventType_RUNNING, EventType_IDLE, EventType_WARNING}"
  shows "sorted_wrt precedes (lifecycle ext) \<and> (\<forall>t \<in> set (lifecycle ext). phase t = 2)"
  using steady_events_ordered [OF assms] by (simp add: lifecycle_def)

lemma nabu_speaker_task_cases:
  "(\<exists>err. nabu_speaker_task env its =
      (NabuParked, [QueueSend \<lparr>event_type = EventType_STARTING, event_err = initial_err env\<rparr>,
                    QueueSend \<lparr>event_type = EventType_WARNING, event_err = err\<rparr>,
                    QueueSend \<lparr>event_type = EventType_STOPPED, event_err = ESP_OK\<rparr>]))
   \<or> (\<exists>err. nabu_speaker_task env its =
      (NabuParked, [QueueSend \<lparr>event_type = EventType_STARTING, event_err = initial_err env\<rparr>,
                    DriverInstall,
                    QueueSend \<lparr>event_type = EventType_WARNING, event_err = err\<rparr>,
                    QueueSend \<lparr>event_type = EventType_STOPPED, event_err = ESP_OK\<rparr>]))
   \<or> (\<exists>ext. set (event_types ext) \<subseteq> {EventType_RUNNING, EventType_IDLE, EventType_WARNING}
         \<and> nabu_speaker_task env its =
      (NabuRunning, [QueueSend \<lparr>event_type = EventType_STARTING, event_err = initial_err env\<rparr>,
                     DriverInstall,
                     QueueSend \<lparr>event_type = EventType_STARTED, event_err = initial_err env\<rparr>] @ ext))
   \<or> (\<exists>ext e1 e2. set (event_types ext) \<subseteq> {EventType_RUNNING, EventType_IDLE, EventType_WARNING}
         \<and> nabu_speaker_task env its =
      (NabuParked, [QueueSend \<lparr>event_type = EventType_STARTING, event_err = initial_err env\<rparr>,
                    DriverInstall,
                    QueueSend \<lparr>event_type = EventType_STARTED, event_err = initial_err env\<rparr>] @ ext @
                   [ZeroDmaBuffer, QueueSend \<lparr>event_type = EventType_STOPPING, event_err = e1\<rparr>,
                    Deallocate, I2SStop, DriverUninstall,
                    QueueSend \<lparr>event_type = EventType_STOPPED, event_err = e2\<rparr>]))"
proof -
  let ?ev0 = "\<lparr>event_type = EventType_STARTING, event_err = initial_err env\<rparr>"
  let ?ev1 = "\<lparr>event_type = EventType_STARTED, event_err = initial_err env\<rparr>"
  let ?tr2 = "[QueueSend ?ev0, DriverInstall, QueueSend ?ev1]"
  consider (a) "\<not> buffer_alloc env"
    | (b) "buffer_alloc env" "nabu_install_err env \<noteq> ESP_OK"
    | (c) "buffer_alloc env" "nabu_install_err env = ESP_OK" "nabu_set_pin_err env \<noteq> ESP_OK"
    | (d) "buffer_alloc env" "nabu_install_err env = ESP_OK" "nabu_set_pin_err env = ESP_OK"
    by blast
  then show ?thesis
  proof cases
    case a
    then show ?thesis by (simp add: nabu_speaker_task_def setup_failed_def send_event_def Let_def)
  next
    case b
    then show ?thesis by (simp add: nabu_speaker_task_def setup_failed_def send_event_def Let_def)
  next
    case c
    then show ?thesis by (simp add: nabu_speaker_task_def setup_failed_def send_event_def Let_def)
  next
    case d
    obtain ex ev2 tr3 where l: "nabu_speaker_loop (is_16bit env) its ?ev1 ?tr2 = (ex, ev2, tr3)"
      by (cases "nabu_speaker_loop (is_16bit env) its ?ev1 ?tr2") auto
    from nabu_speaker_loop_extends [of "is_16bit env" its ?ev1 ?tr2] l
    obtain ext where e: "tr3 = ?tr2 @ ext"
      and sub: "set (event_types ext) \<subseteq> {EventType_RUNNING, EventType_IDLE, EventType_WARNING}"
      by auto
    show ?thesis
    proof (cases ex)
      case False
      with d l e have "nabu_speaker_task env its = (NabuRunning, ?tr2 @ ext)"
        by (simp add: nabu_speaker_task_def send_event_def Let_def)
      with sub show ?thesis by blast
    next
      case True
      with d l e have "nabu_speaker_task env its =
        (NabuParked, ?tr2 @ ext @
                   [ZeroDmaBuffer, QueueSend \<lparr>event_type = EventType_STOPPING, event_err = event_err ev2\<rparr>,
                    Deallocate, I2SStop, DriverUninstall,
                    QueueSend \<lparr>event_type = EventType_STOPPED, event_err = event_err ev2\<rparr>])"
        by (simp add: nabu_speaker_task_def send_event_def Let_def)
      with sub show ?thesis by blast
    qed
  qed
qed



section \<open>Properties of the I2S speaker task\<close>

lemma event_group_SetBits [simp]:
  "event_group (xEventGroupSetBits b s) = event_group s OR b"
  by (simp add: xEventGroupSetBits_def log_action_def)

lemma event_group_ClearBits [simp]:
  "event_group (xEventGroupClearBits b s) = event_group s AND NOT b"
  by (simp add: xEventGroupClearBits_def)

lemma event_group_log_action [simp]: "event_group (log_action a s) = event_group s"
  by (simp add: log_action_def)

lemma start_bits:
  assumes "n \<noteq> 0" "n \<noteq> 21"
  shows "bit (event_group (start ok s)) n = bit (event_group s) n"
  using assms by (simp add: start_def Let_def bit_or_iff bit_consts)

lemma stop_impl_bits:
  assumes "n \<noteq> 1" "n \<noteq> 2"
  shows "bit (event_group (stop_impl w s)) n = bit (event_group s) n"
  using assms by (simp add: stop_impl_def bit_or_iff bit_consts)

lemma loop_bits:
  assumes "\<not> bit (event_group s) 13" "n \<noteq> 10" "n \<noteq> 11" "n \<noteq> 12"
  shows "bit (event_group (loop s)) n = bit (event_group s) n"
  using assms
  by (auto simp: loop_def Let_def test_bits_consts bit_and_iff bit_not_iff bit_consts
      dest: bit_imp_le_length)


lemma play_bits:
  assumes "n \<noteq> 0" "n \<noteq> 21"
  shows "bit (event_group (snd (play ok k s))) n = bit (event_group s) n"
  using assms
  by (auto simp: play_def Let_def test_bits_consts bit_and_iff bit_or_iff bit_not_iff bit_consts
      start_bits dest: bit_imp_le_length)

lemma set_volume_event_group:
  "event_group (case set_volume v s of Some s' \<Rightarrow> s' | None \<Rightarrow> s) = event_group s"
  by (simp add: set_volume_def Let_def)

lemma api_step_bits:
  assumes "\<not> bit (event_group s) 13" "n = 5 \<or> n = 13"
  shows "bit (event_group (api_step c s)) n = bit (event_group s) n"
  using assms
  by (cases c) (auto simp: start_bits stop_def finish_def stop_impl_bits loop_bits play_bits
      set_volume_event_group)

lemma api_calls_bits:
  assumes "\<not> bit (event_group s) 13" "n = 5 \<or> n = 13"
  shows "bit (event_group (api_calls cs s)) n = bit (event_group s) n"
  using assms
proof (induction cs arbitrary: s)
  case Nil
  show ?case by simp
next
  case (Cons c cs)
  have "\<not> bit (event_group (api_step c s)) 13"
    using api_step_bits [of s 13 c] Cons.prems(1) by simp
  from Cons.IH [OF this Cons.prems(2)] api_step_bits [OF Cons.prems, of c]
  show ?case by simp
qed

lemma api_step_fields:
  "timeout (api_step c s) = timeout s \<and> audio_ring_buffer (api_step c s) = audio_ring_buffer s
   \<and> data_buffer (api_step c s) = data_buffer s \<and> parent_locked (api_step c s) = parent_locked s
   \<and> driver_installed (api_step c s) = driver_installed s"
  by (cases c)
     (auto simp: start_def stop_def finish_def stop_impl_def loop_def play_def set_volume_def Let_def
        xEventGroupSetBits_def xEventGroupClearBits_def log_action_def)

lemma api_calls_fields:
  "timeout (api_calls cs s) = timeout s \<and> audio_ring_buffer (api_calls cs s) = audio_ring_buffer s
   \<and> data_buffer (api_calls cs s) = data_buffer s \<and> parent_locked (api_calls cs s) = parent_locked s
   \<and> driver_installed (api_calls cs s) = driver_installed s"
proof (induction cs arbitrary: s)
  case Nil
  show ?case by simp
next
  case (Cons c cs)
  show ?case using Cons.IH [of "api_step c s"] api_step_fields [of c s] by simp
qed

lemma write_received_fields:
  "timeout (write_received info n w buf s) = timeout s
   \<and> audio_ring_buffer (write_received info n w buf s) = audio_ring_buffer s
   \<and> data_buffer (write_received info n w buf s) \<noteq> None
   \<and> parent_locked (write_received info n w buf s) = parent_locked s
   \<and> driver_installed (write_received info n w buf s) = driver_installed s
   \<and> bit (event_group (write_received info n w buf s)) 5 = bit (event_group s) 5
   \<and> bit (event_group (write_received info n w buf s)) 13 = bit (event_group s) 13"
  by (simp add: write_received_def Let_def xEventGroupSetBits_def log_action_def bit_or_iff bit_consts)

lemma steady_invariant_bits:
  "steady_invariant s =
     (bit (event_group s) 5 \<and> \<not> bit (event_group s) 13 \<and> audio_ring_buffer s \<and> data_buffer s \<noteq> None)"
  by (simp add: steady_invariant_def test_bits_consts)

lemma api_calls_invariant:
  assumes "steady_invariant s"
  shows "steady_invariant (api_calls cs s)"
  using assms api_calls_bits [of s 5 cs] api_calls_bits [of s 13 cs] api_calls_fields [of cs s]
  by (simp add: steady_invariant_bits)

lemma write_received_invariant:
  assumes "steady_invariant s"
  shows "steady_invariant (write_received info n w buf s)"
  using assms write_received_fields [of info n w buf s]
  by (simp add: steady_invariant_bits)

lemma log_action_invariant:
  "steady_invariant (log_action a s) = steady_invariant s"
  by (simp add: steady_invariant_bits log_action_def)

lemma log_action_fields [simp]:
  "timeout (log_action a s) = timeout s" "parent_locked (log_action a s) = parent_locked s"
  "driver_installed (log_action a s) = driver_installed s"
  "audio_ring_buffer (log_action a s) = audio_ring_buffer s"
  "data_buffer (log_action a s) = data_buffer s"
  "trace (log_action a s) = trace s @ [a]"
  by (simp_all add: log_action_def)

lemma speaker_task_loop_invariant:
  assumes "steady_invariant s"
  shows "steady_invariant (snd (speaker_task_loop info bps its g l s))
       \<and> timeout (snd (speaker_task_loop info bps its g l s)) = timeout s
       \<and> parent_locked (snd (speaker_task_loop info bps its g l s)) = parent_locked s
       \<and> driver_installed (snd (speaker_task_loop info bps its g l s)) = driver_installed s"
  using assms
proof (induction its arbitrary: g l s)
  case Nil
  then show ?case by simp
next
  case (Cons it its)
  let ?s1 = "api_calls (calls it) s"
  let ?n = "ring_buffer_read (SAMPLES_IN_ALL_DMA_BUFFERS * bps) it"
  let ?g = "if test_bits (event_group ?s1) COMMAND_STOP_GRACEFULLY then True else g"
  let ?s2 = "log_action (RingRead ?n) ?s1"
  have i1: "steady_invariant ?s1" using Cons.prems by (rule api_calls_invariant)
  have f1: "timeout ?s1 = timeout s" "parent_locked ?s1 = parent_locked s"
    "driver_installed ?s1 = driver_installed s"
    using api_calls_fields [of "calls it" s] by simp_all
  consider (late) "\<not> now it - l \<le> timeout s"
    | (stop) "now it - l \<le> timeout s" "test_bits (event_group ?s1) COMMAND_STOP"
    | (data) "now it - l \<le> timeout s" "\<not> test_bits (event_group ?s1) COMMAND_STOP" "0 < ?n"
    | (idle) "now it - l \<le> timeout s" "\<not> test_bits (event_group ?s1) COMMAND_STOP" "\<not> 0 < ?n"
    by blast
  then show ?case
  proof cases
    case late
    then show ?thesis using Cons.prems by simp
  next
    case stop
    then show ?thesis using i1 f1 by (simp add: Let_def log_action_invariant)
  next
    case data
    let ?s3 = "write_received info ?n (written it) (received it) ?s2"
    have e: "speaker_task_loop info bps (it # its) g l s =
               speaker_task_loop info bps its ?g (received_at it) ?s3"
      using data by (simp add: Let_def)
    have i3: "steady_invariant ?s3"
      using i1 by (intro write_received_invariant) (simp add: log_action_invariant)
    have f3: "timeout ?s3 = timeout s" "parent_locked ?s3 = parent_locked s"
      "driver_installed ?s3 = driver_installed s"
      using write_received_fields [of info ?n "written it" "received it" ?s2] f1 by simp_all
    show ?thesis unfolding e using Cons.IH [OF i3, of ?g "received_at it"] f3 by simp
  next
    case idle
    let ?s3 = "log_action ZeroDmaBuffer ?s2"
    have i3: "steady_invariant ?s3" using i1 by (simp add: log_action_invariant)
    show ?thesis
    proof (cases ?g)
      case True
      then have "speaker_task_loop info bps (it # its) g l s = (LoopExit, ?s3)"
        using idle by (simp add: Let_def)
      then show ?thesis using i3 f1 by simp
    next
      case False
      then have e: "speaker_task_loop info bps (it # its) g l s =
                      speaker_task_loop info bps its ?g l ?s3"
        using idle by (simp add: Let_def)
      show ?thesis unfolding e using Cons.IH [OF i3, of ?g l] f1 by simp
    qed
  qed
qed

lemma speaker_task_loop_append:
  "speaker_task_loop info bps (xs @ ys) g l s =
     (case speaker_task_loop info bps xs g l s of
        (LoopRunning g' l', s') \<Rightarrow> speaker_task_loop info bps ys g' l' s'
      | (LoopExit, s') \<Rightarrow> (LoopExit, s'))"
proof (induction xs arbitrary: g l s)
  case Nil
  show ?case by simp
next
  case (Cons it xs)
  show ?case by (simp add: Let_def Cons.IH)
qed

lemma idle_timeout_exits:
  assumes "\<forall>p \<in> set pre. available p = 0" "timeout s < now it - l"
  shows "fst (speaker_task_loop info bps (pre @ it # rest) g l s) = LoopExit"
  using assms
proof (induction pre arbitrary: g s)
  case Nil
  then show ?case by (simp add: not_le [symmetric])
next
  case (Cons p pre)
  let ?s1 = "api_calls (calls p) s"
  let ?g = "if test_bits (event_group ?s1) COMMAND_STOP_GRACEFULLY then True else g"
  let ?s3 = "log_action ZeroDmaBuffer (log_action (RingRead 0) ?s1)"
  have z: "ring_buffer_read (SAMPLES_IN_ALL_DMA_BUFFERS * bps) p = 0"
    using Cons.prems(1) by (simp add: ring_buffer_read_def)
  have t: "timeout ?s3 < now it - l"
    using Cons.prems(2) api_calls_fields [of "calls p" s] by simp
  have nd: "\<forall>p \<in> set pre. available p = 0" using Cons.prems(1) by simp
  show ?case
  proof (cases "now p - l \<le> timeout s \<and> \<not> test_bits (event_group ?s1) COMMAND_STOP \<and> \<not> ?g")
    case True
    then have "speaker_task_loop info bps ((p # pre) @ it # rest) g l s =
                 speaker_task_loop info bps (pre @ it # rest) ?g l ?s3"
      using z by (simp add: Let_def)
    then show ?thesis using Cons.IH [OF nd t, of ?g] by simp
  next
    case False
    then show ?thesis using z by (auto simp: Let_def)
  qed
qed

lemma xEventGroupSetBits_fields [simp]:
  "timeout (xEventGroupSetBits b s) = timeout s"
  "parent_locked (xEventGroupSetBits b s) = parent_locked s"
  "driver_installed (xEventGroupSetBits b s) = driver_installed s"
  "audio_ring_buffer (xEventGroupSetBits b s) = audio_ring_buffer s"
  "data_buffer (xEventGroupSetBits b s) = data_buffer s"
  "task_created (xEventGroupSetBits b s) = task_created s"
  "trace (xEventGroupSetBits b s) = trace s @ [SetBits b]"
  by (simp_all add: xEventGroupSetBits_def log_action_def)

lemma xEventGroupClearBits_fields [simp]:
  "timeout (xEventGroupClearBits b s) = timeout s"
  "parent_locked (xEventGroupClearBits b s) = parent_locked s"
  "driver_installed (xEventGroupClearBits b s) = driver_installed s"
  "audio_ring_buffer (xEventGroupClearBits b s) = audio_ring_buffer s"
  "data_buffer (xEventGroupClearBits b s) = data_buffer s"
  "task_created (xEventGroupClearBits b s) = task_created s"
  "trace (xEventGroupClearBits b s) = trace s"
  by (simp_all add: xEventGroupClearBits_def)

lemma delete_task_completes:
  assumes "\<not> audio_ring_buffer s \<or> test_bits (event_group s) MESSAGE_RING_BUFFER_AVAILABLE_TO_WRITE"
  shows "fst (delete_task s) = TaskDeleted
       \<and> trace (snd (delete_task s)) =
           trace s @ (if audio_ring_buffer s then [RingBufferReset] else [])
                   @ (if data_buffer s \<noteq> None then [Deallocate] else [])
                   @ [SetBits STATE_STOPPED, TaskDelete]
       \<and> test_bits (event_group (snd (delete_task s))) STATE_STOPPED
       \<and> \<not> task_created (snd (delete_task s))
       \<and> \<not> audio_ring_buffer (snd (delete_task s))
       \<and> parent_locked (snd (delete_task s)) = parent_locked s
       \<and> driver_installed (snd (delete_task s)) = driver_installed s"
  using assms
  by (auto simp: delete_task_def Let_def xEventGroupSetBits_def log_action_def test_bits_consts
      bit_or_iff bit_consts)

lemma delete_task_blocks:
  assumes "audio_ring_buffer s" "\<not> test_bits (event_group s) MESSAGE_RING_BUFFER_AVAILABLE_TO_WRITE"
  shows "delete_task s = (BlockedOnRingBuffer, s)"
  using assms by (simp add: delete_task_def)

lemma teardown_completes:
  assumes "\<not> audio_ring_buffer s \<or> test_bits (event_group s) MESSAGE_RING_BUFFER_AVAILABLE_TO_WRITE"
  shows "fst (teardown s) = TaskDeleted
       \<and> trace (snd (teardown s)) =
           trace s @ [SetBits STATE_STOPPING, I2SStop, DriverUninstall, ParentUnlock]
                   @ (if audio_ring_buffer s then [RingBufferReset] else [])
                   @ (if data_buffer s \<noteq> None then [Deallocate] else [])
                   @ [SetBits STATE_STOPPED, TaskDelete]
       \<and> test_bits (event_group (snd (teardown s))) STATE_STOPPING
       \<and> test_bits (event_group (snd (teardown s))) STATE_STOPPED
       \<and> \<not> task_created (snd (teardown s))
       \<and> \<not> parent_locked (snd (teardown s))
       \<and> \<not> driver_installed (snd (teardown s))"
proof -
  let ?s4 = "log_action ParentUnlock
               ((log_action DriverUninstall
                  ((log_action I2SStop (xEventGroupSetBits STATE_STOPPING s))\<lparr>driver_installed := False\<rparr>))
                \<lparr>parent_locked := False\<rparr>)"
  have t: "teardown s = delete_task ?s4" by (simp add: teardown_def Let_def)
  have f: "audio_ring_buffer ?s4 = audio_ring_buffer s" "data_buffer ?s4 = data_buffer s"
    "trace ?s4 = trace s @ [SetBits STATE_STOPPING, I2SStop, DriverUninstall, ParentUnlock]"
    "event_group ?s4 = event_group s OR STATE_STOPPING"
    "\<not> parent_locked ?s4" "\<not> driver_installed ?s4"
    by (simp_all add: xEventGroupSetBits_def log_action_def)
  have a: "\<not> audio_ring_buffer ?s4 \<or> test_bits (event_group ?s4) MESSAGE_RING_BUFFER_AVAILABLE_TO_WRITE"
    using assms by (auto simp: f test_bits_consts bit_or_iff)
  have b12: "test_bits (event_group (snd (delete_task ?s4))) STATE_STOPPING"
    using a by (auto simp: delete_task_def Let_def xEventGroupSetBits_def log_action_def
        test_bits_consts bit_or_iff bit_consts)
  from delete_task_completes [OF a] b12 show ?thesis
    unfolding t by (simp add: f)
qed

lemma loop_observes_stopped:
  assumes "test_bits (event_group s) STATE_STOPPED" "\<not> task_created s"
  shows "state (loop s) = speaker_STATE_STOPPED \<and> \<not> speaker_task_handle (loop s)
       \<and> event_group (loop s) AND ALL_BITS = 0"
  using assms
  by (simp add: loop_def Let_def xEventGroupClearBits_def and.assoc)

lemma never_running:
  "fst (delete_task s) \<noteq> Running g l" "fst (teardown s) \<noteq> Running g l"
  by (auto simp: teardown_def delete_task_def Let_def)

lemma set_event_group_error_ok:
  assumes "set_event_group_error err s = (True, s')"
  shows "err = ESP_OK \<and> s' = s"
  using assms by (cases err) auto

lemma set_event_group_error_cases:
  "set_event_group_error err s =
     (if err = ESP_OK then (True, s)
      else (False, xEventGroupSetBits
              (case err of ESP_ERR_INVALID_STATE \<Rightarrow> ERR_INVALID_STATE
                 | ESP_ERR_INVALID_ARG \<Rightarrow> ERR_INVALID_ARG
                 | ESP_ERR_INVALID_SIZE \<Rightarrow> ERR_INVALID_SIZE
                 | ESP_ERR_NO_MEM \<Rightarrow> ERR_NO_MEM
                 | _ \<Rightarrow> ERR_FAIL) s))"
  by (cases err) auto

lemma start_i2s_driver_fields:
  "event_group (snd (start_i2s_driver env s)) = event_group s
   \<and> audio_ring_buffer (snd (start_i2s_driver env s)) = audio_ring_buffer s
   \<and> data_buffer (snd (start_i2s_driver env s)) = data_buffer s
   \<and> timeout (snd (start_i2s_driver env s)) = timeout s
   \<and> audio_stream_info (snd (start_i2s_driver env s)) = audio_stream_info s"
  by (simp add: start_i2s_driver_def Let_def log_action_def)

lemma set_i2s_stream_info_fields:
  "event_group (snd (set_i2s_stream_info env info s)) = event_group s
   \<and> audio_ring_buffer (snd (set_i2s_stream_info env info s)) = audio_ring_buffer s
   \<and> data_buffer (snd (set_i2s_stream_info env info s)) = data_buffer s
   \<and> timeout (snd (set_i2s_stream_info env info s)) = timeout s"
  by (simp add: set_i2s_stream_info_def Let_def)

lemma speaker_task_setup_ready:
  assumes "speaker_task_setup env this = Inr (info, s9)"
  shows "bit (event_group s9) 5 \<and> bit (event_group s9) 13 = bit (event_group this) 13
       \<and> audio_ring_buffer s9 \<and> data_buffer s9 \<noteq> None \<and> timeout s9 = timeout this
       \<and> info = audio_stream_info this"
proof -
  let ?this1 = "xEventGroupClearBits (COMMAND_START OR COMMAND_STOP OR COMMAND_STOP_GRACEFULLY) this"
  let ?this2 = "xEventGroupSetBits STATE_STARTING ?this1"
  let ?this3 = "?this2\<lparr>data_buffer := data_buffer_alloc env\<rparr>"
  let ?this4 = "if \<not> audio_ring_buffer ?this3
                then ?this3\<lparr>audio_ring_buffer := ring_buffer_alloc env\<rparr> else ?this3"
  obtain err this5 where d: "start_i2s_driver env ?this4 = (err, this5)"
    by (cases "start_i2s_driver env ?this4") auto
  obtain ok this6 where e: "set_event_group_error err this5 = (ok, this6)"
    by (cases "set_event_group_error err this5") auto
  obtain err2 this7 where c: "set_i2s_stream_info env (audio_stream_info ?this2) this6 = (err2, this7)"
    by (cases "set_i2s_stream_info env (audio_stream_info ?this2) this6") auto
  obtain ok2 this8 where e2: "set_event_group_error err2 this7 = (ok2, this8)"
    by (cases "set_event_group_error err2 this7") auto
  have u: "speaker_task_setup env this =
     (if \<not> test_bits (event_group this) (COMMAND_START OR COMMAND_STOP OR COMMAND_STOP_GRACEFULLY)
      then Inl (BlockedOnCommand, this)
      else if test_bits (event_group this) (COMMAND_STOP OR COMMAND_STOP_GRACEFULLY)
      then Inl (delete_task ?this1)
      else if data_buffer ?this4 = None \<or> \<not> audio_ring_buffer ?this4
      then Inl (delete_task (xEventGroupSetBits ERR_NO_MEM ?this4))
      else if \<not> ok then Inl (delete_task this6)
      else if ok2
      then Inr (audio_stream_info ?this2,
                xEventGroupSetBits (STATE_RUNNING OR MESSAGE_RING_BUFFER_AVAILABLE_TO_WRITE) this8)
      else Inl (teardown this8))"
    unfolding speaker_task_setup_def Let_def d e c e2 prod.case by (rule refl)
  from assms have r: "data_buffer ?this4 \<noteq> None" "audio_ring_buffer ?this4" "ok" "ok2"
    "info = audio_stream_info ?this2"
    "s9 = xEventGroupSetBits (STATE_RUNNING OR MESSAGE_RING_BUFFER_AVAILABLE_TO_WRITE) this8"
    unfolding u by (simp_all only: split: if_splits) auto
  from e r(3) have "set_event_group_error err this5 = (True, this6)" by simp
  then have s6: "this6 = this5" by (rule set_event_group_error_ok [THEN conjunct2])
  from e2 r(4) have "set_event_group_error err2 this7 = (True, this8)" by simp
  then have s8: "this8 = this7" by (rule set_event_group_error_ok [THEN conjunct2])
  have f5: "event_group this5 = event_group ?this4" "audio_ring_buffer this5 = audio_ring_buffer ?this4"
    "data_buffer this5 = data_buffer ?this4" "timeout this5 = timeout ?this4"
    using start_i2s_driver_fields [of env ?this4] d by simp_all
  have f7: "event_group this7 = event_group this6" "audio_ring_buffer this7 = audio_ring_buffer this6"
    "data_buffer this7 = data_buffer this6" "timeout this7 = timeout this6"
    using set_i2s_stream_info_fields [of env "audio_stream_info ?this2" this6] c by simp_all
  have g4: "event_group ?this4 = event_group ?this2" "timeout ?this4 = timeout this" by simp_all
  have b13: "bit (event_group ?this2) 13 = bit (event_group this) 13"
    by (auto simp: bit_or_iff bit_and_iff bit_not_iff bit_consts dest: bit_imp_le_length)
  have i: "audio_stream_info ?this2 = audio_stream_info this"
    by (simp add: xEventGroupSetBits_def xEventGroupClearBits_def log_action_def)
  show ?thesis
    using r(1,2) b13 unfolding r(5,6) s8 i
    by (simp add: f7 s6 f5 g4 bit_or_iff bit_consts)
qed

lemma speaker_task_setup_Inl:
  assumes "speaker_task_setup env this = Inl r"
  shows "fst r \<noteq> Running g l"
proof -
  let ?this1 = "xEventGroupClearBits (COMMAND_START OR COMMAND_STOP OR COMMAND_STOP_GRACEFULLY) this"
  let ?this2 = "xEventGroupSetBits STATE_STARTING ?this1"
  let ?this3 = "?this2\<lparr>data_buffer := data_buffer_alloc env\<rparr>"
  let ?this4 = "if \<not> audio_ring_buffer ?this3
                then ?this3\<lparr>audio_ring_buffer := ring_buffer_alloc env\<rparr> else ?this3"
  obtain err this5 where d: "start_i2s_driver env ?this4 = (err, this5)"
    by (cases "start_i2s_driver env ?this4") auto
  obtain ok this6 where e: "set_event_group_error err this5 = (ok, this6)"
    by (cases "set_event_group_error err this5") auto
  obtain err2 this7 where c: "set_i2s_stream_info env (audio_stream_info ?this2) this6 = (err2, this7)"
    by (cases "set_i2s_stream_info env (audio_stream_info ?this2) this6") auto
  obtain ok2 this8 where e2: "set_event_group_error err2 this7 = (ok2, this8)"
    by (cases "set_event_group_error err2 this7") auto
  have u: "speaker_task_setup env this =
     (if \<not> test_bits (event_group this) (COMMAND_START OR COMMAND_STOP OR COMMAND_STOP_GRACEFULLY)
      then Inl (BlockedOnCommand, this)
      else if test_bits (event_group this) (COMMAND_STOP OR COMMAND_STOP_GRACEFULLY)
      then Inl (delete_task ?this1)
      else if data_buffer ?this4 = None \<or> \<not> audio_ring_buffer ?this4
      then Inl (delete_task (xEventGroupSetBits ERR_NO_MEM ?this4))
      else if \<not> ok then Inl (delete_task this6)
      else if ok2
      then Inr (audio_stream_info ?this2,
                xEventGroupSetBits (STATE_RUNNING OR MESSAGE_RING_BUFFER_AVAILABLE_TO_WRITE) this8)
      else Inl (teardown this8))"
    unfolding speaker_task_setup_def Let_def d e c e2 prod.case by (rule refl)
  from assms show ?thesis
    unfolding u by (simp_all only: split: if_splits) (auto simp: never_running)
qed

lemma speaker_task_running:
  assumes "speaker_task env run this = (Running g l, s)"
    and "\<not> test_bits (event_group this) STATE_STOPPED"
  shows "\<exists>info s9. speaker_task_setup env this = Inr (info, s9)
           \<and> speaker_task_loop info (bytes_per_sample env) run False (start_millis env) s9 = (LoopRunning g l, s)
           \<and> steady_invariant s9 \<and> steady_invariant s"
proof (cases "speaker_task_setup env this")
  case (Inl r)
  with assms(1) have "fst r = Running g l" by (simp add: speaker_task_def)
  with speaker_task_setup_Inl [OF Inl] show ?thesis by blast
next
  case (Inr b)
  obtain info s9 where b: "b = (info, s9)" by (cases b) auto
  have st: "speaker_task_setup env this = Inr (info, s9)" using Inr b by simp
  obtain r s' where lp: "speaker_task_loop info (bytes_per_sample env) run False (start_millis env) s9 = (r, s')"
    by (cases "speaker_task_loop info (bytes_per_sample env) run False (start_millis env) s9") auto
  have "r = LoopRunning g l \<and> s' = s"
  proof (cases r)
    case (LoopRunning g' l')
    with assms(1) st lp show ?thesis by (simp add: speaker_task_def)
  next
    case LoopExit
    with assms(1) st lp have "fst (teardown s') = Running g l" by (simp add: speaker_task_def)
    with never_running show ?thesis by blast
  qed
  with lp have l: "speaker_task_loop info (bytes_per_sample env) run False (start_millis env) s9 = (LoopRunning g l, s)"
    by simp
  have i9: "steady_invariant s9"
    using speaker_task_setup_ready [OF st] assms(2)
    by (simp add: steady_invariant_bits test_bits_consts)
  have "steady_invariant s"
    using speaker_task_loop_invariant [OF i9, of info "bytes_per_sample env" run False "start_millis env"] l
    by simp
  with st l i9 show ?thesis by blast
qed

lemma speaker_task_continue:
  assumes "speaker_task_setup env this = Inr (info, s9)"
    and "speaker_task_loop info (bytes_per_sample env) run False (start_millis env) s9 = (LoopRunning g l, s)"
  shows "speaker_task env (run @ ys) this =
           (case speaker_task_loop info (bytes_per_sample env) ys g l s of
              (LoopRunning g' t, s') \<Rightarrow> (Running g' t, s')
            | (LoopExit, s') \<Rightarrow> teardown s')"
  using assms by (simp add: speaker_task_def speaker_task_loop_append)

lemma teardown_steady:
  assumes "steady_invariant s"
  shows "fst (teardown s) = TaskDeleted
       \<and> trace (snd (teardown s)) =
           trace s @ [SetBits STATE_STOPPING, I2SStop, DriverUninstall, ParentUnlock,
                      RingBufferReset, Deallocate, SetBits STATE_STOPPED, TaskDelete]
       \<and> test_bits (event_group (snd (teardown s))) STATE_STOPPING
       \<and> test_bits (event_group (snd (teardown s))) STATE_STOPPED
       \<and> \<not> task_created (snd (teardown s))
       \<and> \<not> parent_locked (snd (teardown s))
       \<and> \<not> driver_installed (snd (teardown s))"
proof -
  from assms have a: "\<not> audio_ring_buffer s \<or> test_bits (event_group s) MESSAGE_RING_BUFFER_AVAILABLE_TO_WRITE"
    and b: "audio_ring_buffer s" "data_buffer s \<noteq> None"
    by (simp_all add: steady_invariant_def)
  from teardown_completes [OF a] b show ?thesis by simp
qed

lemma stop_sets_command:
  assumes "\<not> failed s" "state s \<noteq> speaker_STATE_STOPPED"
  shows "test_bits (event_group (stop s)) COMMAND_STOP"
  using assms by (simp add: stop_def stop_impl_def test_bits_consts bit_or_iff bit_consts)

lemma api_step_handle:
  assumes "\<not> bit (event_group s) 13" "speaker_task_handle s"
  shows "speaker_task_handle (api_step c s)"
  using assms
  by (cases c)
     (auto simp: start_def stop_def finish_def stop_impl_def loop_def play_def set_volume_def Let_def
        xEventGroupSetBits_def xEventGroupClearBits_def log_action_def test_bits_consts)

lemma api_calls_blocked:
  assumes "\<not> bit (event_group s) 13" "\<not> bit (event_group s) 5" "speaker_task_handle s"
  shows "\<not> bit (event_group (api_calls cs s)) 13 \<and> \<not> bit (event_group (api_calls cs s)) 5
       \<and> speaker_task_handle (api_calls cs s)"
  using assms
proof (induction cs arbitrary: s)
  case Nil
  then show ?case by simp
next
  case (Cons c cs)
  have "\<not> bit (event_group (api_step c s)) 13" "\<not> bit (event_group (api_step c s)) 5"
    using api_step_bits [of s 13 c] api_step_bits [of s 5 c] Cons.prems by simp_all
  moreover have "speaker_task_handle (api_step c s)"
    using Cons.prems by (intro api_step_handle) simp_all
  ultimately show ?case using Cons.IH [of "api_step c s"] by simp
qed

lemmas eval_defs =
  speaker_task_def speaker_task_setup_def Let_def env_ok_def stopped_speaker_def
  start_def start_i2s_driver_def set_i2s_stream_info_def delete_task_def teardown_def
  xEventGroupSetBits_def xEventGroupClearBits_def log_action_def
  test_bits_or test_bits_consts test_bits_ERROR_BITS bit_or_iff bit_and_iff bit_not_iff bit_consts
  empty_pass_def stop_pass_def late_pass_def ring_buffer_read_def loop_def stop_def stop_impl_def

lemma started_run:
  "fst (speaker_task env_ok [empty_pass] (start True stopped_speaker)) = Running False 0
   \<and> timeout (snd (speaker_task env_ok [empty_pass] (start True stopped_speaker))) = 100
   \<and> state (snd (speaker_task env_ok [empty_pass] (start True stopped_speaker))) = speaker_STATE_RUNNING
   \<and> \<not> failed (snd (speaker_task env_ok [empty_pass] (start True stopped_speaker)))"
  by (simp add: eval_defs)

lemma stop_ignored:
  assumes "failed s \<or> state s = speaker_STATE_STOPPED"
  shows "stop s = s"
  using assms by (auto simp: stop_def stop_impl_def)

lemma early_stop_run:
  "fst (speaker_task env_ok [stop_pass] (start True stopped_speaker)) = Running False 61
   \<and> trace (snd (speaker_task env_ok [stop_pass] (start True stopped_speaker))) =
        [SetBits COMMAND_START, SetBits STATE_STARTING, DriverInstall,
         SetBits (STATE_RUNNING OR MESSAGE_RING_BUFFER_AVAILABLE_TO_WRITE),
         RingRead 8, I2SWrite [1, 2, 3, 4] 8]
   \<and> \<not> test_bits (event_group (snd (speaker_task env_ok [stop_pass] (start True stopped_speaker))))
          COMMAND_STOP"
  by (simp add: eval_defs write_received_def INT16_MAX_def SAMPLES_IN_ALL_DMA_BUFFERS_def
      SAMPLES_IN_ONE_DMA_BUFFER_def DMA_BUFFER_SIZE_def NUMBER_OF_CHANNELS_def DMA_BUFFERS_COUNT_def)

lemma late_stop_run:
  "test_bits (event_group (stop running_speaker)) COMMAND_STOP
   \<and> timeout (stop running_speaker) < now late_pass - 0
   \<and> speaker_task_loop (audio_stream_info running_speaker) 2 [late_pass] False 0 (stop running_speaker)
        = (LoopExit, stop running_speaker)
   \<and> fst (teardown (stop running_speaker)) = TaskDeleted
   \<and> trace (snd (teardown (stop running_speaker))) =
        [SetBits COMMAND_STOP, SetBits STATE_STOPPING, I2SStop, DriverUninstall, ParentUnlock,
         RingBufferReset, Deallocate, SetBits STATE_STOPPED, TaskDelete]"
  by (simp add: eval_defs running_speaker_def)

lemma fresh_run:
  "fst (speaker_task env_ok [] (start True stopped_speaker)) = Running False 0
   \<and> state (snd (speaker_task env_ok [] (start True stopped_speaker))) = speaker_STATE_STOPPED"
  by (simp add: eval_defs)

section \<open>Claims about the volume table and the gain stage\<close>

text \<open>
  C1. For every volume in the unit interval, \<^verbatim>\<open>set_volume\<close> stores the table entry at
  index \<open>round (volume * 99)\<close>, clamped to the table bounds (the clamp is the identity on
  the unit interval). Volume 0 yields gain 0, volume 1 yields gain 32767, which no table
  entry exceeds, and a larger volume never yields a smaller gain. The index is the
  specification's account of the helper \<^verbatim>\<open>remap\<close>; the table, its order and its end
  points are the source's.
\<close>

theorem set_volume_selects_table_entry:
  assumes "0 \<le> v" "v \<le> w" "w \<le> 1"
  shows "remap v 0 1 0 (int (length q15_volume_scaling_factors) - 1) = max 0 (min 99 (round (v * 99)))
       \<and> 0 \<le> round (v * 99) \<and> round (v * 99) \<le> 99
       \<and> map_option q15_volume_factor (set_volume v this) =
             Some (q15_volume_scaling_factors ! nat (round (v * 99)))
       \<and> map_option q15_volume_factor (set_volume 0 this) = Some 0
       \<and> map_option q15_volume_factor (set_volume 1 this) = Some 32767
       \<and> (\<forall>i < length q15_volume_scaling_factors. sint (q15_volume_scaling_factors ! i) \<le> 32767)
       \<and> (\<exists>g h. map_option q15_volume_factor (set_volume v this) = Some g
                \<and> map_option q15_volume_factor (set_volume w this) = Some h
                \<and> sint g \<le> sint h)"
proof -
  have v1: "v \<le> 1" and w0: "0 \<le> w" using assms by auto
  have idx: "remap v 0 1 0 (int (length q15_volume_scaling_factors) - 1) = max 0 (min 99 (round (v * 99)))"
    by (simp add: length_q15_volume_scaling_factors remap_table_index)
  have rv: "0 \<le> round (v * 99) \<and> round (v * 99) \<le> 99"
    using round_unit_interval [OF assms(1) v1] .
  have rw: "0 \<le> round (w * 99) \<and> round (w * 99) \<le> 99"
    using round_unit_interval [OF w0 assms(3)] .
  have gv: "map_option q15_volume_factor (set_volume v this) =
             Some (q15_volume_scaling_factors ! nat (round (v * 99)))"
    using set_volume_gain [OF assms(1) v1] .
  have gw: "map_option q15_volume_factor (set_volume w this) =
             Some (q15_volume_scaling_factors ! nat (round (w * 99)))"
    using set_volume_gain [OF w0 assms(3)] .
  have g0: "map_option q15_volume_factor (set_volume 0 this) = Some 0"
    using set_volume_gain [of 0 this] by (simp add: q15_volume_scaling_factors_first)
  have g1: "map_option q15_volume_factor (set_volume 1 this) = Some 32767"
    using set_volume_gain [of 1 this] by (simp add: q15_volume_scaling_factors_last)
  have top: "\<forall>i < length q15_volume_scaling_factors. sint (q15_volume_scaling_factors ! i) \<le> 32767"
    using sint16_bounds by blast
  have "round (v * 99) \<le> round (w * 99)"
    using assms(2) by (intro round_mono) simp
  then have "nat (round (v * 99)) \<le> nat (round (w * 99))" by simp
  moreover have "nat (round (w * 99)) < 100" using rw by linarith
  ultimately have "sint (q15_volume_scaling_factors ! nat (round (v * 99)))
                     \<le> sint (q15_volume_scaling_factors ! nat (round (w * 99)))"
    by (rule gain_index_mono)
  with gv gw have mono: "\<exists>g h. map_option q15_volume_factor (set_volume v this) = Some g
                \<and> map_option q15_volume_factor (set_volume w this) = Some h
                \<and> sint g \<le> sint h" by blast
  from idx rv gv g0 g1 top mono show ?thesis by blast
qed

text \<open>C1, at the volumes 1/4 and 1/2: the gains are the entries 25 and 50 of the table.\<close>

theorem set_volume_selects_table_entry_witness:
  "(0::real) \<le> 1 / 4 \<and> (1 / 4 :: real) \<le> 1 / 2 \<and> (1 / 2 :: real) \<le> 1
   \<and> map_option q15_volume_factor (set_volume (1 / 4) stopped_speaker) = Some 461
   \<and> map_option q15_volume_factor (set_volume (1 / 2) stopped_speaker) = Some 1946"
proof -
  have h1: "(0::real) \<le> 1 / 4" and h2: "(1 / 4 :: real) \<le> 1 / 2" and h3: "(1 / 2 :: real) \<le> 1"
    by simp_all
  have r1: "round (1 / 4 * 99 :: real) = 25" by (simp add: round_def)
  have r2: "round (1 / 2 * 99 :: real) = 50" by (simp add: round_def)
  have t25: "q15_volume_scaling_factors ! 25 = 461" by (simp add: q15_volume_scaling_factors_def)
  from set_volume_selects_table_entry [OF h1 h2 h3, of stopped_speaker]
  have a: "map_option q15_volume_factor (set_volume (1 / 4) stopped_speaker) =
             Some (q15_volume_scaling_factors ! nat (round (1 / 4 * 99 :: real)))"
    by blast
  have b: "map_option q15_volume_factor (set_volume (1 / 2) stopped_speaker) = Some 1946"
    using set_volume_gain [of "1 / 2" stopped_speaker]
    by (simp only: r2) (simp add: q15_volume_scaling_factors_50)
  from a have a': "map_option q15_volume_factor (set_volume (1 / 4) stopped_speaker) = Some 461"
    by (simp only: r1) (simp add: t25)
  from h1 h2 h3 a' b show ?thesis by blast
qed

text \<open>
  C9, as stated, fails: index 50 of the source's table holds 1946. The entries 580 and 615
  that the specification places around index 50 are the entries 29 and 30, and 590 is not
  in the table.
\<close>

theorem volume_half_table_value_counterexample:
  "\<not> (remap (1 / 2) 0 1 0 (int (length q15_volume_scaling_factors) - 1) = 50
      \<and> q15_volume_scaling_factors ! 50 = 590)"
  by (simp add: q15_volume_scaling_factors_50)

text \<open>
  C9, amended: setting the volume to 0.5 selects table index \<open>round (0.5 * 99) = 50\<close>, and
  the table value at that index, which becomes the gain, is 1946.
\<close>

theorem volume_half_selects_1946:
  "remap (1 / 2) 0 1 0 (int (length q15_volume_scaling_factors) - 1) = 50
   \<and> q15_volume_scaling_factors ! 50 = 1946
   \<and> map_option q15_volume_factor (set_volume (1 / 2) this) = Some 1946"
proof -
  have r2: "round (1 / 2 * 99 :: real) = 50" by (simp add: round_def)
  have "remap (1 / 2) 0 1 0 99 = max 0 (min 99 (round (1 / 2 * 99 :: real)))"
    by (rule remap_table_index)
  then have "remap (1 / 2) 0 1 0 99 = 50"
    unfolding r2 by simp
  then have i: "remap (1 / 2) 0 1 0 (int (length q15_volume_scaling_factors) - 1) = 50"
    by (simp add: length_q15_volume_scaling_factors)
  have g: "map_option q15_volume_factor (set_volume (1 / 2) this) = Some 1946"
    using set_volume_gain [of "1 / 2" this]
    by (simp only: r2) (simp add: q15_volume_scaling_factors_50)
  from i g q15_volume_scaling_factors_50 show ?thesis by blast
qed

text \<open>
  C2. Applied in place to a block of samples inside the memory, the gain stage keeps the
  length, leaves every sample outside the block alone and replaces every sample \<open>s\<close> of the
  block by the 16-bit value of \<open>(int32 s * int32 c) >> 15\<close>, the shift being the floor of the
  division by \<open>2 ^ 15\<close>. For a gain that is not negative (every table entry) the result
  is that quotient itself, without wrap-around. At gain 0 every sample of the block becomes
  0; at gain 32767 every sample stays within 1 of its input.
\<close>

theorem q15_multiplication_in_place:
  assumes "a + len \<le> length mem" "j < length mem"
  shows "length (q15_multiplication mem a a len c) = length mem
       \<and> q15_multiplication mem a a len c ! j =
           (if a \<le> j \<and> j < a + len then word_of_int (sint (mem ! j) * sint c div 2 ^ 15) else mem ! j)
       \<and> (0 \<le> sint c \<and> a \<le> j \<and> j < a + len \<longrightarrow>
            sint (q15_multiplication mem a a len c ! j) = sint (mem ! j) * sint c div 2 ^ 15)
       \<and> q15_multiplication mem a a len 0 ! j = (if a \<le> j \<and> j < a + len then 0 else mem ! j)
       \<and> \<bar>sint (q15_multiplication mem a a len 32767 ! j) - sint (mem ! j)\<bar> \<le> 1"
proof -
  have nth: "q15_multiplication mem a a len k ! j =
               (if a \<le> j \<and> j < a + len then q15_sample (mem ! j) k else mem ! j)" for k
    using q15_loop_in_place [OF refl assms(1), of k 0] assms(2)
    by (simp add: q15_multiplication_def)
  have len: "length (q15_multiplication mem a a len c) = length mem"
    using q15_loop_in_place [OF refl assms(1), of c 0] by (simp add: q15_multiplication_def)
  have one: "\<bar>sint (q15_multiplication mem a a len 32767 ! j) - sint (mem ! j)\<bar> \<le> 1"
    using q15_sample_unity [of "mem ! j"] by (simp add: nth)
  have val: "q15_multiplication mem a a len c ! j =
           (if a \<le> j \<and> j < a + len then word_of_int (sint (mem ! j) * sint c div 2 ^ 15) else mem ! j)"
    by (simp only: nth q15_sample_word)
  have exact: "0 \<le> sint c \<and> a \<le> j \<and> j < a + len \<longrightarrow>
            sint (q15_multiplication mem a a len c ! j) = sint (mem ! j) * sint c div 2 ^ 15"
    by (simp only: nth) (simp add: q15_sample_nonneg_gain)
  have zero: "q15_multiplication mem a a len 0 ! j = (if a \<le> j \<and> j < a + len then 0 else mem ! j)"
    by (simp only: nth q15_sample_zero)
  from len val exact zero one show ?thesis by blast
qed

text \<open>C2, on the first two of three samples at gain 16410 (about one half): \<open>-200\<close>
  becomes \<open>-101\<close>.\<close>

theorem q15_multiplication_in_place_witness:
  "(0::nat) + 2 \<le> length [100, - 200, 300 :: int16] \<and> (1::nat) < length [100, - 200, 300 :: int16]
   \<and> q15_multiplication [100, - 200, 300] 0 0 2 16410 ! 1 = - 101"
proof -
  have h1: "(0::nat) + 2 \<le> length [100, - 200, 300 :: int16]" by simp
  have h2: "(1::nat) < length [100, - 200, 300 :: int16]" by simp
  from q15_multiplication_in_place [OF h1 h2, of 16410]
  have "q15_multiplication [100, - 200, 300] 0 0 2 16410 ! 1 =
          (if (0::nat) \<le> 1 \<and> (1::nat) < 0 + 2
           then word_of_int (sint ([100, - 200, 300 :: int16] ! 1) * sint (16410 :: int16) div 2 ^ 15)
           else [100, - 200, 300] ! 1)"
    by blast
  then have "q15_multiplication [100, - 200, 300] 0 0 2 16410 ! 1 = - 101" by simp
  with h1 h2 show ?thesis by blast
qed

section \<open>Claims about the media player\<close>

text \<open>
  C3, as stated, fails: \<^verbatim>\<open>control\<close> sends with \<^verbatim>\<open>portMAX_DELAY\<close>, so on a full queue
  that nobody takes a command off, the caller does not return and no command is dropped.
\<close>

theorem control_blocks_counterexample:
  "control None volume_call busy_player = CallerBlocked"
  by (simp add: control_def send_media_command_def xQueueSend_def volume_call_def busy_player_def
      QUEUE_COUNT_def Let_def)

text \<open>
  C3, amended: every call of \<^verbatim>\<open>control\<close> that carries a URL, a volume or a command
  builds one command (the URL before the volume before the command) and sends it to the
  bounded command queue without a time limit. With room in the queue the command is
  appended and the call returns; on a full queue the call returns once the receiving side
  has taken the oldest command off, with the new command at the end; if that never
  happens the caller stays blocked. Whenever the call returns, the new command is the last
  one of the queue: it is never dropped.
\<close>

theorem control_send_without_time_limit:
  assumes "get_media_url call \<noteq> None \<or> get_volume call \<noteq> None \<or> get_command call \<noteq> None"
  shows "\<exists>cmd.
           mc_new_url cmd = (if get_media_url call \<noteq> None then Some True else None)
         \<and> mc_volume cmd = (if get_media_url call = None then get_volume call else None)
         \<and> mc_command cmd =
              (if get_media_url call = None \<and> get_volume call = None then get_command call else None)
         \<and> (length (media_control_command_queue this) < QUEUE_COUNT \<longrightarrow>
               (\<exists>this'. control frees call this = Returned this'
                  \<and> media_control_command_queue this' = media_control_command_queue this @ [cmd]))
         \<and> (QUEUE_COUNT \<le> length (media_control_command_queue this) \<and> frees \<noteq> None \<longrightarrow>
               (\<exists>this'. control frees call this = Returned this'
                  \<and> media_control_command_queue this' = tl (media_control_command_queue this) @ [cmd]))
         \<and> (QUEUE_COUNT \<le> length (media_control_command_queue this) \<and> frees = None \<longrightarrow>
               control frees call this = CallerBlocked)
         \<and> (\<forall>this'. control frees call this = Returned this' \<longrightarrow>
               media_control_command_queue this' \<noteq> [] \<and> last (media_control_command_queue this') = cmd)"
proof -
  from control_is_one_send [OF assms, of frees this]
  obtain cmd this1 where c: "control frees call this = send_media_command frees cmd this1"
    and q: "media_control_command_queue this1 = media_control_command_queue this"
    and f: "mc_new_url cmd = (if get_media_url call \<noteq> None then Some True else None)"
           "mc_volume cmd = (if get_media_url call = None then get_volume call else None)"
           "mc_command cmd =
              (if get_media_url call = None \<and> get_volume call = None then get_command call else None)"
    by blast
  have r: "(length (media_control_command_queue this) < QUEUE_COUNT \<longrightarrow>
               (\<exists>this'. control frees call this = Returned this'
                  \<and> media_control_command_queue this' = media_control_command_queue this @ [cmd]))
         \<and> (QUEUE_COUNT \<le> length (media_control_command_queue this) \<and> frees \<noteq> None \<longrightarrow>
               (\<exists>this'. control frees call this = Returned this'
                  \<and> media_control_command_queue this' = tl (media_control_command_queue this) @ [cmd]))
         \<and> (QUEUE_COUNT \<le> length (media_control_command_queue this) \<and> frees = None \<longrightarrow>
               control frees call this = CallerBlocked)
         \<and> (\<forall>this'. control frees call this = Returned this' \<longrightarrow>
               media_control_command_queue this' \<noteq> [] \<and> last (media_control_command_queue this') = cmd)"
    unfolding c send_media_command_cases q [symmetric] by auto
  with f show ?thesis by blast
qed

text \<open>C3, amended, on a full queue whose receiver takes a command off after three ticks:
  the volume command is enqueued.\<close>

theorem control_send_without_time_limit_witness:
  "get_volume volume_call = Some (1 / 2)
   \<and> QUEUE_COUNT \<le> length (media_control_command_queue busy_player)
   \<and> (\<exists>this'. control (Some 3) volume_call busy_player = Returned this'
         \<and> length (media_control_command_queue this') = 20
         \<and> mc_volume (last (media_control_command_queue this')) = Some (1 / 2))"
proof -
  have h: "get_media_url volume_call \<noteq> None \<or> get_volume volume_call \<noteq> None \<or> get_command volume_call \<noteq> None"
    by (simp add: volume_call_def)
  have full: "QUEUE_COUNT \<le> length (media_control_command_queue busy_player)"
    by (simp add: QUEUE_COUNT_def busy_player_def)
  from control_send_without_time_limit [OF h, of busy_player "Some 3"] full
  obtain cmd this' where v: "mc_volume cmd = (if get_media_url volume_call = None then get_volume volume_call else None)"
    and r: "control (Some 3) volume_call busy_player = Returned this'"
    and q: "media_control_command_queue this' = tl (media_control_command_queue busy_player) @ [cmd]"
    by auto
  have "mc_volume cmd = Some (1 / 2)" using v by (simp add: volume_call_def)
  moreover have "length (media_control_command_queue this') = 20"
    unfolding q by (simp add: busy_player_def)
  moreover have "get_volume volume_call = Some (1 / 2)" by (simp add: volume_call_def)
  ultimately show ?thesis using full r q by auto
qed

text \<open>
  C4. After the sub-states have been updated, \<^verbatim>\<open>loop\<close> sets the player state by fixed
  precedence: ANNOUNCING if the announcement pipeline is neither STOPPING nor STOPPED,
  otherwise PAUSED if paused, otherwise PLAYING if the media pipeline is neither STOPPING
  nor STOPPED, otherwise IDLE. The derivation leaves the sub-states alone, and the state is
  published exactly when it differs from the previous one.
\<close>

theorem nabu_loop_published_state:
  "player_state (nabu_loop watch this) =
     (if announcement_pipeline_state (watch this) \<noteq> PipelineState_STOPPING \<and>
         announcement_pipeline_state (watch this) \<noteq> PipelineState_STOPPED
      then MEDIA_PLAYER_STATE_ANNOUNCING
      else if is_paused (watch this) then MEDIA_PLAYER_STATE_PAUSED
      else if media_pipeline_state (watch this) \<noteq> PipelineState_STOPPING \<and>
              media_pipeline_state (watch this) \<noteq> PipelineState_STOPPED
      then MEDIA_PLAYER_STATE_PLAYING
      else MEDIA_PLAYER_STATE_IDLE)
   \<and> announcement_pipeline_state (nabu_loop watch this) = announcement_pipeline_state (watch this)
   \<and> media_pipeline_state (nabu_loop watch this) = media_pipeline_state (watch this)
   \<and> is_paused (nabu_loop watch this) = is_paused (watch this)
   \<and> published (nabu_loop watch this) =
        (if player_state (nabu_loop watch this) \<noteq> player_state (watch this)
         then published (watch this) @ [player_state (nabu_loop watch this)]
         else published (watch this))"
proof -
  let ?s = "watch this"
  consider (announcing) "announcement_pipeline_state ?s \<noteq> PipelineState_STOPPING"
                        "announcement_pipeline_state ?s \<noteq> PipelineState_STOPPED"
    | (paused) "announcement_pipeline_state ?s = PipelineState_STOPPING
                  \<or> announcement_pipeline_state ?s = PipelineState_STOPPED"
               "is_paused ?s"
    | (idle) "announcement_pipeline_state ?s = PipelineState_STOPPING
                  \<or> announcement_pipeline_state ?s = PipelineState_STOPPED"
             "\<not> is_paused ?s"
             "media_pipeline_state ?s = PipelineState_STOPPING
                  \<or> media_pipeline_state ?s = PipelineState_STOPPED"
    | (playing) "announcement_pipeline_state ?s = PipelineState_STOPPING
                  \<or> announcement_pipeline_state ?s = PipelineState_STOPPED"
                "\<not> is_paused ?s"
                "media_pipeline_state ?s \<noteq> PipelineState_STOPPING"
                "media_pipeline_state ?s \<noteq> PipelineState_STOPPED"
    by blast
  then show ?thesis
  proof cases
    case announcing
    then show ?thesis
      by (simp add: nabu_loop_def Let_def mute_def unmute_def publish_state_def)
  next
    case paused
    then show ?thesis
      by (auto simp: nabu_loop_def Let_def mute_def unmute_def publish_state_def)
  next
    case idle
    then show ?thesis
      by (auto simp: nabu_loop_def Let_def mute_def unmute_def publish_state_def)
  next
    case playing
    then show ?thesis
      by (auto simp: nabu_loop_def Let_def mute_def unmute_def publish_state_def)
  qed
qed



text \<open>
  C8. The status events the media player's speaker task sends, WARNING events left out,
  are in lifecycle order: each event is followed only by events of a later phase
  (STARTING, then STARTED, then the steady state, then STOPPING, then STOPPED), or by
  further RUNNING and IDLE events within the steady state. The first event is STARTING,
  and a task that has come to its end has sent STOPPED last. (After a failed set-up the
  events are STARTING, WARNING, STOPPED.)
\<close>

theorem nabu_speaker_task_lifecycle_order:
  "sorted_wrt precedes (lifecycle (snd (nabu_speaker_task env its)))
   \<and> hd (event_types (snd (nabu_speaker_task env its))) = EventType_STARTING
   \<and> (fst (nabu_speaker_task env its) = NabuParked \<longrightarrow>
        last (event_types (snd (nabu_speaker_task env its))) = EventType_STOPPED)"
proof -
  have steady: "sorted_wrt precedes (lifecycle ext) \<and> (\<forall>t \<in> set (lifecycle ext). phase t = 2)"
    if "set (event_types ext) \<subseteq> {EventType_RUNNING, EventType_IDLE, EventType_WARNING}" for ext
    using lifecycle_steady [OF that] .
  from nabu_speaker_task_cases [of env its] show ?thesis
  proof (elim disjE exE conjE)
    fix err
    assume "nabu_speaker_task env its =
      (NabuParked, [QueueSend \<lparr>event_type = EventType_STARTING, event_err = initial_err env\<rparr>,
                    QueueSend \<lparr>event_type = EventType_WARNING, event_err = err\<rparr>,
                    QueueSend \<lparr>event_type = EventType_STOPPED, event_err = ESP_OK\<rparr>])"
    then show ?thesis by (simp add: lifecycle_def precedes_def)
  next
    fix err
    assume "nabu_speaker_task env its =
      (NabuParked, [QueueSend \<lparr>event_type = EventType_STARTING, event_err = initial_err env\<rparr>,
                    DriverInstall,
                    QueueSend \<lparr>event_type = EventType_WARNING, event_err = err\<rparr>,
                    QueueSend \<lparr>event_type = EventType_STOPPED, event_err = ESP_OK\<rparr>])"
    then show ?thesis by (simp add: lifecycle_def precedes_def)
  next
    fix ext
    assume sub: "set (event_types ext) \<subseteq> {EventType_RUNNING, EventType_IDLE, EventType_WARNING}"
      and r: "nabu_speaker_task env its =
      (NabuRunning, [QueueSend \<lparr>event_type = EventType_STARTING, event_err = initial_err env\<rparr>,
                     DriverInstall,
                     QueueSend \<lparr>event_type = EventType_STARTED, event_err = initial_err env\<rparr>] @ ext)"
    have l: "lifecycle (snd (nabu_speaker_task env its)) =
               [EventType_STARTING, EventType_STARTED] @ lifecycle ext"
      unfolding r by (simp add: lifecycle_def)
    have "sorted_wrt precedes ([EventType_STARTING, EventType_STARTED] @ lifecycle ext)"
      using steady [OF sub] by (auto simp: sorted_wrt_append precedes_def)
    then show ?thesis unfolding l [symmetric] by (simp add: r)
  next
    fix ext e1 e2
    assume sub: "set (event_types ext) \<subseteq> {EventType_RUNNING, EventType_IDLE, EventType_WARNING}"
      and r: "nabu_speaker_task env its =
      (NabuParked, [QueueSend \<lparr>event_type = EventType_STARTING, event_err = initial_err env\<rparr>,
                    DriverInstall,
                    QueueSend \<lparr>event_type = EventType_STARTED, event_err = initial_err env\<rparr>] @ ext @
                   [ZeroDmaBuffer, QueueSend \<lparr>event_type = EventType_STOPPING, event_err = e1\<rparr>,
                    Deallocate, I2SStop, DriverUninstall,
                    QueueSend \<lparr>event_type = EventType_STOPPED, event_err = e2\<rparr>])"
    have l: "lifecycle (snd (nabu_speaker_task env its)) =
               [EventType_STARTING, EventType_STARTED] @ lifecycle ext @ [EventType_STOPPING, EventType_STOPPED]"
      unfolding r by (simp add: lifecycle_def event_types_append)
    have "sorted_wrt precedes
            ([EventType_STARTING, EventType_STARTED] @ lifecycle ext @ [EventType_STOPPING, EventType_STOPPED])"
      using steady [OF sub] by (auto simp: sorted_wrt_append precedes_def)
    then show ?thesis unfolding l [symmetric] by (simp add: r event_types_append)
  qed
qed

text \<open>C8, on a run with a complete write, a short write and the stop command.\<close>

theorem nabu_speaker_task_lifecycle_order_witness:
  "fst (nabu_speaker_task nabu_env_ok [nabu_full_pass, nabu_short_pass, nabu_stop_pass]) = NabuParked
   \<and> last (event_types (snd (nabu_speaker_task nabu_env_ok [nabu_full_pass, nabu_short_pass, nabu_stop_pass])))
        = EventType_STOPPED
   \<and> event_types (snd (nabu_speaker_task nabu_env_ok [nabu_full_pass, nabu_short_pass, nabu_stop_pass]))
        = [EventType_STARTING, EventType_STARTED, EventType_RUNNING, EventType_WARNING,
           EventType_STOPPING, EventType_STOPPED]"
proof -
  have r: "nabu_speaker_task nabu_env_ok [nabu_full_pass, nabu_short_pass, nabu_stop_pass] =
        (NabuParked,
         [QueueSend \<lparr>event_type = EventType_STARTING, event_err = ESP_OK\<rparr>, DriverInstall,
          QueueSend \<lparr>event_type = EventType_STARTED, event_err = ESP_OK\<rparr>,
          I2SWrite [] 2048, QueueSend \<lparr>event_type = EventType_RUNNING, event_err = ESP_OK\<rparr>,
          I2SWrite [] 2048, QueueSend \<lparr>event_type = EventType_WARNING, event_err = ESP_ERR_TIMEOUT\<rparr>,
          ZeroDmaBuffer, QueueSend \<lparr>event_type = EventType_STOPPING, event_err = ESP_ERR_TIMEOUT\<rparr>,
          Deallocate, I2SStop, DriverUninstall,
          QueueSend \<lparr>event_type = EventType_STOPPED, event_err = ESP_ERR_TIMEOUT\<rparr>])"
    by (simp add: nabu_speaker_task_def nabu_env_ok_def nabu_full_pass_def nabu_short_pass_def
        nabu_stop_pass_def send_event_def Let_def DMA_BUFFER_SIZE_def combine_streamer_read_def)
  then have h: "fst (nabu_speaker_task nabu_env_ok [nabu_full_pass, nabu_short_pass, nabu_stop_pass]) = NabuParked"
    by simp
  from nabu_speaker_task_lifecycle_order [of nabu_env_ok "[nabu_full_pass, nabu_short_pass, nabu_stop_pass]"] h
  have l: "last (event_types (snd (nabu_speaker_task nabu_env_ok [nabu_full_pass, nabu_short_pass, nabu_stop_pass])))
        = EventType_STOPPED" by blast
  from h l show ?thesis by (simp add: r)
qed

section \<open>Claims about the I2S speaker task\<close>

text \<open>
  C5, as stated, fails, in two ways. First, \<^verbatim>\<open>stop()\<close> is called on a speaker that has
  been started and whose ring buffer holds 8 bytes, before the component's \<^verbatim>\<open>loop\<close> has
  published a state other than stopped: \<^verbatim>\<open>stop_\<close> returns without setting
  \<^verbatim>\<open>COMMAND_STOP\<close>, and the task reads the 8 bytes, writes them to the driver and keeps
  running, with no silence and no tear-down. Second, on a running speaker \<^verbatim>\<open>stop()\<close>
  has set \<^verbatim>\<open>COMMAND_STOP\<close>, but the next pass starts after the idle time-out: the loop
  is left at its condition, before the event group is read, and the task tears down
  without zeroing the DMA buffer.
\<close>

theorem hard_stop_counterexample:
  "calls stop_pass = [CallStop] \<and> available stop_pass = 8
   \<and> state (start True stopped_speaker) = speaker_STATE_STOPPED
   \<and> fst (speaker_task env_ok [stop_pass] (start True stopped_speaker)) = Running False 61
   \<and> trace (snd (speaker_task env_ok [stop_pass] (start True stopped_speaker))) =
        [SetBits COMMAND_START, SetBits STATE_STARTING, DriverInstall,
         SetBits (STATE_RUNNING OR MESSAGE_RING_BUFFER_AVAILABLE_TO_WRITE),
         RingRead 8, I2SWrite [1, 2, 3, 4] 8]
   \<and> \<not> test_bits (event_group (snd (speaker_task env_ok [stop_pass] (start True stopped_speaker))))
          COMMAND_STOP
   \<and> test_bits (event_group (stop running_speaker)) COMMAND_STOP
   \<and> timeout (stop running_speaker) < now late_pass - 0
   \<and> speaker_task_loop (audio_stream_info running_speaker) 2 [late_pass] False 0 (stop running_speaker)
        = (LoopExit, stop running_speaker)
   \<and> fst (teardown (stop running_speaker)) = TaskDeleted
   \<and> trace (snd (teardown (stop running_speaker))) =
        [SetBits COMMAND_STOP, SetBits STATE_STOPPING, I2SStop, DriverUninstall, ParentUnlock,
         RingBufferReset, Deallocate, SetBits STATE_STOPPED, TaskDelete]"
proof -
  have a: "calls stop_pass = [CallStop]" "available stop_pass = 8"
    by (simp_all add: stop_pass_def)
  have b: "state (start True stopped_speaker) = speaker_STATE_STOPPED"
    by (simp add: start_def stopped_speaker_def Let_def xEventGroupSetBits_def log_action_def)
  from a b early_stop_run late_stop_run show ?thesis by blast
qed

text \<open>
  C5, amended. Take any run of the speaker task that is in its loop. If the next pass starts
  before the idle time-out has expired and finds the \<^verbatim>\<open>COMMAND_STOP\<close> bit set, then,
  whatever the ring buffer still holds, the task zeroes the DMA buffer, reports
  \<^verbatim>\<open>STATE_STOPPING\<close>, stops and uninstalls the driver, unlocks the bus, frees its
  buffers, reports \<^verbatim>\<open>STATE_STOPPED\<close> and deletes itself, in this order and with no read
  of the ring buffer and no write to the driver in between. If the next pass starts after
  the idle time-out has expired, the task tears down in the same way but without zeroing
  the DMA buffer. \<^verbatim>\<open>stop()\<close> sets \<^verbatim>\<open>COMMAND_STOP\<close> when the component has not failed
  and its published state is not stopped; otherwise it does nothing.
\<close>

theorem accepted_stop_silences_then_tears_down:
  assumes "speaker_task env run this = (Running g l, s)"
    and "\<not> test_bits (event_group this) STATE_STOPPED"
  shows "(now it - l \<le> timeout s \<and> test_bits (event_group (api_calls (calls it) s)) COMMAND_STOP \<longrightarrow>
            fst (speaker_task env (run @ it # rest) this) = TaskDeleted
          \<and> trace (snd (speaker_task env (run @ it # rest) this)) =
               trace (api_calls (calls it) s) @
                 [ZeroDmaBuffer, SetBits STATE_STOPPING, I2SStop, DriverUninstall, ParentUnlock,
                  RingBufferReset, Deallocate, SetBits STATE_STOPPED, TaskDelete])
       \<and> (timeout s < now it - l \<longrightarrow>
            fst (speaker_task env (run @ it # rest) this) = TaskDeleted
          \<and> trace (snd (speaker_task env (run @ it # rest) this)) =
               trace s @
                 [SetBits STATE_STOPPING, I2SStop, DriverUninstall, ParentUnlock,
                  RingBufferReset, Deallocate, SetBits STATE_STOPPED, TaskDelete])
       \<and> (\<not> failed s \<and> state s \<noteq> speaker_STATE_STOPPED \<longrightarrow>
             test_bits (event_group (stop s)) COMMAND_STOP)
       \<and> (failed s \<or> state s = speaker_STATE_STOPPED \<longrightarrow> stop s = s)"
proof -
  from speaker_task_running [OF assms] obtain info s9 where
    st: "speaker_task_setup env this = Inr (info, s9)"
    and lp: "speaker_task_loop info (bytes_per_sample env) run False (start_millis env) s9 = (LoopRunning g l, s)"
    and inv: "steady_invariant s"
    by blast
  let ?s1 = "api_calls (calls it) s"
  have polled: "fst (speaker_task env (run @ it # rest) this) = TaskDeleted
          \<and> trace (snd (speaker_task env (run @ it # rest) this)) =
               trace ?s1 @
                 [ZeroDmaBuffer, SetBits STATE_STOPPING, I2SStop, DriverUninstall, ParentUnlock,
                  RingBufferReset, Deallocate, SetBits STATE_STOPPED, TaskDelete]"
    if c: "now it - l \<le> timeout s" "test_bits (event_group ?s1) COMMAND_STOP"
  proof -
    have pass: "speaker_task_loop info (bytes_per_sample env) (it # rest) g l s =
                  (LoopExit, log_action ZeroDmaBuffer ?s1)"
      using c by (simp add: Let_def)
    have i1: "steady_invariant (log_action ZeroDmaBuffer ?s1)"
      using api_calls_invariant [OF inv, of "calls it"] by (simp add: log_action_invariant)
    have run: "speaker_task env (run @ it # rest) this = teardown (log_action ZeroDmaBuffer ?s1)"
      using speaker_task_continue [OF st lp, of "it # rest"] by (simp only: pass) simp
    from teardown_steady [OF i1] show ?thesis unfolding run by simp
  qed
  have late: "fst (speaker_task env (run @ it # rest) this) = TaskDeleted
          \<and> trace (snd (speaker_task env (run @ it # rest) this)) =
               trace s @
                 [SetBits STATE_STOPPING, I2SStop, DriverUninstall, ParentUnlock,
                  RingBufferReset, Deallocate, SetBits STATE_STOPPED, TaskDelete]"
    if c: "timeout s < now it - l"
  proof -
    have pass: "speaker_task_loop info (bytes_per_sample env) (it # rest) g l s = (LoopExit, s)"
      using c by (simp add: not_le [symmetric])
    have run: "speaker_task env (run @ it # rest) this = teardown s"
      using speaker_task_continue [OF st lp, of "it # rest"] by (simp only: pass) simp
    from teardown_steady [OF inv] show ?thesis unfolding run by simp
  qed
  from polled late stop_sets_command [of s] stop_ignored [of s] show ?thesis by blast
qed

text \<open>C5, amended, on a started speaker: after one pass without data (in which \<^verbatim>\<open>loop\<close>
  published the running state) \<^verbatim>\<open>stop()\<close> is called while the ring buffer holds 8 bytes,
  and the task ends deleted; after the same pass a pass 200 ms after the start ends the
  task as well; and before any pass, with the published state still stopped,
  \<^verbatim>\<open>stop()\<close> changes nothing.\<close>

theorem accepted_stop_silences_then_tears_down_witness:
  "fst (speaker_task env_ok [empty_pass] (start True stopped_speaker)) = Running False 0
   \<and> \<not> test_bits (event_group (start True stopped_speaker)) STATE_STOPPED
   \<and> now stop_pass - 0 \<le> timeout (snd (speaker_task env_ok [empty_pass] (start True stopped_speaker)))
   \<and> test_bits (event_group (api_calls (calls stop_pass)
                   (snd (speaker_task env_ok [empty_pass] (start True stopped_speaker))))) COMMAND_STOP
   \<and> 0 < available stop_pass
   \<and> fst (speaker_task env_ok ([empty_pass] @ stop_pass # [empty_pass]) (start True stopped_speaker))
        = TaskDeleted
   \<and> timeout (snd (speaker_task env_ok [empty_pass] (start True stopped_speaker))) < now late_pass - 0
   \<and> fst (speaker_task env_ok ([empty_pass] @ late_pass # [empty_pass]) (start True stopped_speaker))
        = TaskDeleted
   \<and> state (snd (speaker_task env_ok [] (start True stopped_speaker))) = speaker_STATE_STOPPED
   \<and> stop (snd (speaker_task env_ok [] (start True stopped_speaker)))
        = snd (speaker_task env_ok [] (start True stopped_speaker))"
proof -
  let ?init = "start True stopped_speaker"
  let ?ready = "snd (speaker_task env_ok [empty_pass] ?init)"
  have h1: "speaker_task env_ok [empty_pass] ?init = (Running False 0, ?ready)"
    using started_run by (simp add: prod_eq_iff)
  have h2: "\<not> test_bits (event_group ?init) STATE_STOPPED"
    by (simp add: eval_defs)
  have h3: "now stop_pass - 0 \<le> timeout ?ready"
    using started_run by (simp add: stop_pass_def)
  have acc: "\<not> failed ?ready \<and> state ?ready \<noteq> speaker_STATE_STOPPED"
    using started_run by simp
  from accepted_stop_silences_then_tears_down [OF h1 h2, of stop_pass "[empty_pass]"] acc
  have "test_bits (event_group (stop ?ready)) COMMAND_STOP" by blast
  then have h4: "test_bits (event_group (api_calls (calls stop_pass) ?ready)) COMMAND_STOP"
    by (simp add: stop_pass_def)
  have h5: "0 < available stop_pass" by (simp add: stop_pass_def)
  from accepted_stop_silences_then_tears_down [OF h1 h2, of stop_pass "[empty_pass]"] h3 h4
  have c: "fst (speaker_task env_ok ([empty_pass] @ stop_pass # [empty_pass]) ?init) = TaskDeleted"
    by blast
  have h6: "timeout ?ready < now late_pass - 0"
    using started_run by (simp add: late_pass_def)
  from accepted_stop_silences_then_tears_down [OF h1 h2, of late_pass "[empty_pass]"] h6
  have d: "fst (speaker_task env_ok ([empty_pass] @ late_pass # [empty_pass]) ?init) = TaskDeleted"
    by blast
  let ?fresh = "snd (speaker_task env_ok [] ?init)"
  have h7: "speaker_task env_ok [] ?init = (Running False 0, ?fresh)"
    using fresh_run by (simp add: prod_eq_iff)
  have ign: "state ?fresh = speaker_STATE_STOPPED" using fresh_run by simp
  from accepted_stop_silences_then_tears_down [OF h7 h2, of stop_pass "[]"] ign
  have e: "stop ?fresh = ?fresh" by blast
  from started_run h2 h3 h4 h5 c h6 d ign e show ?thesis by blast
qed

text \<open>
  C6. Take any run of the speaker task that is in its loop, with \<open>l\<close> the time of the last
  data. If the following passes receive no data and one of them starts when more than the
  idle time-out has passed since \<open>l\<close>, the loop is left at that pass at the latest and the
  task tears down: it reports \<^verbatim>\<open>STATE_STOPPING\<close>, stops and uninstalls the driver,
  unlocks the bus, frees its buffers, reports \<^verbatim>\<open>STATE_STOPPED\<close> and deletes itself.
  The driver and the bus are released, and the component's next \<^verbatim>\<open>loop\<close> sets the
  published state to stopped and clears the task handle.
\<close>

theorem idle_timeout_tears_down:
  assumes "speaker_task env run this = (Running g l, s)"
    and "\<not> test_bits (event_group this) STATE_STOPPED"
    and "\<forall>p \<in> set pre. available p = 0"
    and "timeout s < now it - l"
  shows "fst (speaker_task env (run @ pre @ it # rest) this) = TaskDeleted
       \<and> (\<exists>tr. trace (snd (speaker_task env (run @ pre @ it # rest) this)) =
                  tr @ [SetBits STATE_STOPPING, I2SStop, DriverUninstall, ParentUnlock,
                        RingBufferReset, Deallocate, SetBits STATE_STOPPED, TaskDelete])
       \<and> \<not> driver_installed (snd (speaker_task env (run @ pre @ it # rest) this))
       \<and> \<not> parent_locked (snd (speaker_task env (run @ pre @ it # rest) this))
       \<and> test_bits (event_group (snd (speaker_task env (run @ pre @ it # rest) this))) STATE_STOPPED
       \<and> state (loop (snd (speaker_task env (run @ pre @ it # rest) this))) = speaker_STATE_STOPPED
       \<and> \<not> speaker_task_handle (loop (snd (speaker_task env (run @ pre @ it # rest) this)))"
proof -
  from speaker_task_running [OF assms(1,2)] obtain info s9 where
    st: "speaker_task_setup env this = Inr (info, s9)"
    and lp: "speaker_task_loop info (bytes_per_sample env) run False (start_millis env) s9 = (LoopRunning g l, s)"
    and inv: "steady_invariant s"
    by blast
  let ?loop = "speaker_task_loop info (bytes_per_sample env) (pre @ it # rest) g l s"
  have "fst ?loop = LoopExit" using assms(3,4) by (rule idle_timeout_exits)
  then obtain s2 where ex: "?loop = (LoopExit, s2)" by (cases ?loop) auto
  have i2: "steady_invariant s2"
    using speaker_task_loop_invariant [OF inv, of info "bytes_per_sample env" "pre @ it # rest" g l] ex
    by simp
  have run: "speaker_task env (run @ pre @ it # rest) this = teardown s2"
    using speaker_task_continue [OF st lp, of "pre @ it # rest"] by (simp only: ex) simp
  from teardown_steady [OF i2] have t: "fst (teardown s2) = TaskDeleted"
    "trace (snd (teardown s2)) =
           trace s2 @ [SetBits STATE_STOPPING, I2SStop, DriverUninstall, ParentUnlock,
                      RingBufferReset, Deallocate, SetBits STATE_STOPPED, TaskDelete]"
    "test_bits (event_group (snd (teardown s2))) STATE_STOPPED"
    "\<not> task_created (snd (teardown s2))"
    "\<not> parent_locked (snd (teardown s2))"
    "\<not> driver_installed (snd (teardown s2))"
    by simp_all
  from loop_observes_stopped [OF t(3,4)] t show ?thesis
    unfolding run by blast
qed

text \<open>C6, on a started speaker with an idle time-out of 100 ms: two passes without data
  and a third one 200 ms after the start.\<close>

theorem idle_timeout_tears_down_witness:
  "fst (speaker_task env_ok [empty_pass] (start True stopped_speaker)) = Running False 0
   \<and> \<not> test_bits (event_group (start True stopped_speaker)) STATE_STOPPED
   \<and> available empty_pass = 0
   \<and> timeout (snd (speaker_task env_ok [empty_pass] (start True stopped_speaker))) < now late_pass - 0
   \<and> fst (speaker_task env_ok ([empty_pass] @ [empty_pass] @ late_pass # []) (start True stopped_speaker))
        = TaskDeleted
   \<and> state (loop (snd (speaker_task env_ok ([empty_pass] @ [empty_pass] @ late_pass # [])
                          (start True stopped_speaker)))) = speaker_STATE_STOPPED"
proof -
  let ?init = "start True stopped_speaker"
  let ?ready = "snd (speaker_task env_ok [empty_pass] ?init)"
  have h1: "speaker_task env_ok [empty_pass] ?init = (Running False 0, ?ready)"
    using started_run by (simp add: prod_eq_iff)
  have h2: "\<not> test_bits (event_group ?init) STATE_STOPPED"
    by (simp add: eval_defs)
  have a: "available empty_pass = 0" by (simp add: empty_pass_def)
  then have h3: "\<forall>p \<in> set [empty_pass]. available p = 0" by simp
  have h4: "timeout ?ready < now late_pass - 0"
    using started_run by (simp add: late_pass_def)
  from idle_timeout_tears_down [OF h1 h2 h3 h4, of "[]"]
  have c: "fst (speaker_task env_ok ([empty_pass] @ [empty_pass] @ late_pass # []) ?init) = TaskDeleted"
    "state (loop (snd (speaker_task env_ok ([empty_pass] @ [empty_pass] @ late_pass # []) ?init)))
       = speaker_STATE_STOPPED"
    by blast+
  from started_run h2 a h4 c show ?thesis by blast
qed

text \<open>
  C10 fails on the set-up failure paths. A speaker whose bus is held by another component
  is started; buffers are allocated, \<^verbatim>\<open>start_i2s_driver_\<close> fails to lock the bus, and
  \<^verbatim>\<open>delete_task_\<close> waits without limit for the ring buffer bit, which only a task that
  reached its loop sets. The task is never deleted, and whatever the component's API is
  called with afterwards, the \<^verbatim>\<open>STATE_STOPPED\<close> bit is never set and the task handle is
  never cleared.
\<close>

theorem setup_failure_never_reports_stopped:
  "fst (speaker_task env_ok its (start True bus_taken_speaker)) = BlockedOnRingBuffer
   \<and> TaskDelete \<notin> set (trace (snd (speaker_task env_ok its (start True bus_taken_speaker))))
   \<and> (\<forall>cs. \<not> test_bits (event_group (api_calls cs (snd (speaker_task env_ok its (start True bus_taken_speaker)))))
                 STATE_STOPPED
          \<and> \<not> test_bits (event_group (api_calls cs (snd (speaker_task env_ok its (start True bus_taken_speaker)))))
                 MESSAGE_RING_BUFFER_AVAILABLE_TO_WRITE
          \<and> speaker_task_handle (api_calls cs (snd (speaker_task env_ok its (start True bus_taken_speaker)))))"
proof -
  let ?s0 = "start True bus_taken_speaker"
  let ?blocked = "stopped_speaker
      \<lparr>event_group := ((0 OR COMMAND_START) AND NOT (COMMAND_START OR COMMAND_STOP OR COMMAND_STOP_GRACEFULLY)
                          OR STATE_STARTING) OR ERR_INVALID_STATE,
       speaker_task_handle := True, task_created := True, audio_ring_buffer := True,
       data_buffer := Some [], parent_locked := True,
       trace := [SetBits COMMAND_START, SetBits STATE_STARTING, SetBits ERR_INVALID_STATE]\<rparr>"
  have s0: "?s0 = stopped_speaker\<lparr>event_group := 0 OR COMMAND_START, speaker_task_handle := True,
                                   task_created := True, parent_locked := True,
                                   trace := [SetBits COMMAND_START]\<rparr>"
    by (simp add: start_def bus_taken_speaker_def stopped_speaker_def Let_def xEventGroupSetBits_def
        log_action_def)
  have r: "speaker_task env_ok its ?s0 = (BlockedOnRingBuffer, ?blocked)"
    unfolding s0
    by (simp add: speaker_task_def speaker_task_setup_def Let_def env_ok_def stopped_speaker_def
        start_i2s_driver_def delete_task_def xEventGroupSetBits_def xEventGroupClearBits_def
        log_action_def test_bits_or test_bits_consts bit_or_iff bit_and_iff bit_not_iff bit_consts)
  have b: "\<not> bit (event_group ?blocked) 13" "\<not> bit (event_group ?blocked) 5" "speaker_task_handle ?blocked"
    by (simp_all add: bit_or_iff bit_and_iff bit_not_iff bit_consts)
  have "\<not> bit (event_group (api_calls cs ?blocked)) 13 \<and> \<not> bit (event_group (api_calls cs ?blocked)) 5
       \<and> speaker_task_handle (api_calls cs ?blocked)" for cs
    using b by (rule api_calls_blocked)
  then show ?thesis
    unfolding r by (simp add: test_bits_consts)
qed

end
